theory Spec2Isabelle
  imports Complex_Main
begin

section \<open>Gizmo Breakout: the play state of src/js/breakout.js\<close>

text \<open>
  A shallow embedding of the entity classes (Ball, Brick, Wall) and of the methods of
  PlayState that drive a game: onBallTick, onBrickDestroyed, spawnBrick, spawnLevel,
  handleLevelComplete, incrementScore, lostBall and startTimer.

  JavaScript numbers are modelled as \<open>real\<close> (no rounding, no NaN, no signed zero);
  counters that only ever hold integers (score, lives, hits, grid cells) are \<open>int\<close>.
  Objects compared by reference (balls and bricks, through \<open>indexOf\<close>) carry an object
  identity \<open>oid\<close>. Sound effects (SfxSystem.playSfx), sketches and the UI text elements
  have no influence on the simulation and are left out.
\<close>

subsection \<open>Numbers: Math and Mathf\<close>

text \<open>The \<open>%\<close> operator of JavaScript: the remainder has the sign of the dividend
  (the quotient is truncated towards zero).\<close>

definition js_rem :: "real \<Rightarrow> real \<Rightarrow> real" where
  "js_rem a n = a - n * of_int (if 0 \<le> a / n then \<lfloor>a / n\<rfloor> else \<lceil>a / n\<rceil>)"

text \<open>Math.round: the nearest integer, a tie rounded up.\<close>

definition js_round :: "real \<Rightarrow> real" where
  "js_round v = of_int \<lfloor>v + 1 / 2\<rfloor>"

text \<open>Math.atan2(y, x) on the reals: the angle of the vector (x, y) in (-pi, pi], and 0
  for the zero vector.\<close>

definition atan2 :: "real \<Rightarrow> real \<Rightarrow> real" where
  "atan2 vy vx =
     (if 0 < vx then arctan (vy / vx)
      else if vx < 0 then (if 0 \<le> vy then arctan (vy / vx) + pi else arctan (vy / vx) - pi)
      else if 0 < vy then pi / 2
      else if vy < 0 then - (pi / 2)
      else 0)"

text \<open>Modelled from the spec: Mathf.lerp of the Gizmo library (not in src/), called as
  \<open>lerp(min, max, minv, maxv, v)\<close>; it maps \<open>v\<close> linearly from the range min..max to the
  range minv..maxv.\<close>

definition lerp :: "real \<Rightarrow> real \<Rightarrow> real \<Rightarrow> real \<Rightarrow> real \<Rightarrow> real" where
  "lerp mn mx minv maxv v = minv + (v - mn) * (maxv - minv) / (mx - mn)"

subsection \<open>Geometry: XForm and Bounds\<close>

text \<open>The fields of a Gizmo XForm that the game reads: the position, the offset of the
  top-left corner from the position, and the size.\<close>

record xform =
  xf_x :: real
  xf_y :: real
  xf_minx :: real
  xf_miny :: real
  xf_width :: real
  xf_height :: real

record bounds =
  b_x :: real
  b_y :: real
  b_width :: real
  b_height :: real

definition minx :: "bounds \<Rightarrow> real" where "minx b = b_x b"
definition maxx :: "bounds \<Rightarrow> real" where "maxx b = b_x b + b_width b"
definition miny :: "bounds \<Rightarrow> real" where "miny b = b_y b"
definition maxy :: "bounds \<Rightarrow> real" where "maxy b = b_y b + b_height b"
definition midx :: "bounds \<Rightarrow> real" where "midx b = b_x b + b_width b / 2"

text \<open>The \<open>bounds\<close> getter that Ball, Brick, Wall and Paddle all declare in their schema:
  \<open>new Bounds(xform.x + xform.minx, xform.y + xform.miny, xform.width, xform.height)\<close>.\<close>

definition entity_bounds :: "xform \<Rightarrow> bounds" where
  "entity_bounds xf =
     \<lparr>b_x = xf_x xf + xf_minx xf, b_y = xf_y xf + xf_miny xf,
      b_width = xf_width xf, b_height = xf_height xf\<rparr>"

text \<open>Modelled from the spec: Bounds.overlaps and Bounds.intersects of the Gizmo library
  (not in src/). Section 4.1: \<open>overlaps\<close> is true iff the rectangles share area or touch
  (inclusive on the boundary); \<open>intersects\<close> returns the overlap rectangle, or nothing.\<close>

definition overlaps :: "bounds \<Rightarrow> bounds \<Rightarrow> bool" where
  "overlaps a b \<longleftrightarrow>
     max (minx a) (minx b) \<le> min (maxx a) (maxx b) \<and>
     max (miny a) (miny b) \<le> min (maxy a) (maxy b)"

definition intersects :: "bounds \<Rightarrow> bounds \<Rightarrow> bounds option" where
  "intersects a b =
     (if overlaps a b
      then Some \<lparr>b_x = max (minx a) (minx b), b_y = max (miny a) (miny b),
                 b_width = min (maxx a) (maxx b) - max (minx a) (minx b),
                 b_height = min (maxy a) (maxy b) - max (miny a) (miny b)\<rparr>
      else None)"

subsection \<open>Entities\<close>

record ball =
  ball_oid :: nat
  ball_xform :: xform
  angle :: real
  speed :: real
  colliding :: bool

record brick =
  brick_oid :: nat
  brick_xform :: xform
  brick_score :: int
  hits :: int

datatype wall_state = Idle | Hit

text \<open>A wall, with the Timer objects its \<open>hit\<close> method has created and that have not
  fired yet: each is the time to live that remains, in ms. Every one of them has the same
  callback, \<open>() => this.state = 'idle'\<close>.\<close>

record wall =
  wall_xform :: xform
  wall_state :: wall_state
  wall_timers :: "real list"

text \<open>Brick.cpre: the score a new brick gets from the \<open>hits\<close> and \<open>score\<close> of its
  specification (\<open>spec.hits || 1\<close>, and \<open>hits*100\<close> when \<open>spec.score\<close> is falsy).\<close>

definition Brick_cpre :: "int \<Rightarrow> int \<Rightarrow> int" where
  "Brick_cpre spec_hits spec_score =
     (let h = (if spec_hits = 0 then 1 else spec_hits)
      in if spec_score = 0 then h * 100 else spec_score)"

text \<open>Brick.hit: the brick after the call, and whether it called \<open>this.destroy()\<close>.\<close>

definition Brick_hit :: "brick \<Rightarrow> brick \<times> bool" where
  "Brick_hit k = (let k' = k\<lparr>hits := hits k - 1\<rparr> in (k', hits k' \<le> 0))"

definition hitTTL :: real where
  "hitTTL = 300"

definition Wall_hit :: "wall \<Rightarrow> wall" where
  "Wall_hit w =
     (if wall_state w = Idle
      then w\<lparr>wall_state := Hit, wall_timers := wall_timers w @ [hitTTL]\<rparr>
      else w)"

text \<open>Modelled from the spec: the Timer class of the Gizmo library (not in src/), for the
  one-shot timers of a wall. Section 4.2: the scheduler is driven by simulation ticks, each
  with an elapsed time; a one-shot entry fires, once, in the first tick in which its delay
  has elapsed, and is then gone.\<close>

definition Wall_tock :: "real \<Rightarrow> wall \<Rightarrow> wall" where
  "Wall_tock elapsed w =
     (let ttls = map (\<lambda>ttl. ttl - elapsed) (wall_timers w)
      in w\<lparr>wall_state := (if \<exists>ttl \<in> set ttls. ttl \<le> 0 then Idle else wall_state w),
            wall_timers := filter (\<lambda>ttl. 0 < ttl) ttls\<rparr>)"

text \<open>What can happen to a wall: a ball hits it, or the game clock ticks.\<close>

datatype wall_event = BallHit | Tock real

fun wall_step :: "wall_event \<Rightarrow> wall \<Rightarrow> wall" where
  "wall_step BallHit w = Wall_hit w"
| "wall_step (Tock elapsed) w = Wall_tock elapsed w"

definition wall_run :: "wall_event list \<Rightarrow> wall \<Rightarrow> wall" where
  "wall_run es w = fold wall_step es w"

fun event_time :: "wall_event \<Rightarrow> real" where
  "event_time BallHit = 0"
| "event_time (Tock elapsed) = elapsed"

definition simulated_time :: "wall_event list \<Rightarrow> real" where
  "simulated_time es = sum_list (map event_time es)"

subsection \<open>The play state\<close>

text \<open>The Timer objects that PlayState creates: the looping countdown of startTimer (the
  ticks left and its period in ms; its last tick spawns a ball) and the one-shot timer of
  handleLevelComplete (its delay; its callback is \<open>fire_next_level\<close> below).\<close>

datatype timer = Countdown int real | NextLevel real

datatype error = TypeError

text \<open>The fields of PlayState that the methods below read or write. \<open>levels\<close> is the static
  table of level grids; \<open>pg_width\<close> and \<open>pg_height\<close> are \<open>playground.xform.width\<close> and
  \<open>playground.xform.height\<close>; \<open>paddle\<close> is the transform of the paddle. The last four
  fields record effects: the Timer objects created (those that are pending, once
  \<open>fire\<close> below runs their callbacks), the calls \<open>StateMgr.start(tag, {score})\<close>, the balls
  on which \<open>destroy()\<close> was called, and the next fresh object identity.\<close>

record play_state =
  score :: int
  lives :: int
  level :: nat
  gameover :: bool
  balls :: "ball list"
  bricks :: "brick list"
  walls :: "wall list"
  paddle :: xform
  leftEdge :: real
  rightEdge :: real
  topEdge :: real
  bottomEdge :: real
  pg_width :: real
  pg_height :: real
  levels :: "int list list"
  timers :: "timer list"
  started :: "(string \<times> int) list"
  destroyed :: "nat list"
  next_oid :: nat

definition brickLeftPct :: real where "brickLeftPct = 3 / 24"
definition brickRightPct :: real where "brickRightPct = 3 / 24"
definition brickTopPct :: real where "brickTopPct = 3 / 30"
definition brickBottomPct :: real where "brickBottomPct = 16 / 30"
definition maxRows :: nat where "maxRows = 11"
definition maxCols :: nat where "maxCols = 9"

text \<open>\<open>array.indexOf(obj)\<close> on an array of objects: the first index that holds the object
  with this identity; \<open>None\<close> stands for -1.\<close>

fun indexOf :: "nat \<Rightarrow> nat list \<Rightarrow> nat option" where
  "indexOf oid [] = None"
| "indexOf oid (x # xs) =
     (if x = oid then Some 0 else map_option Suc (indexOf oid xs))"

text \<open>\<open>array.splice(idx, 1)\<close>.\<close>

definition splice1 :: "nat \<Rightarrow> 'a list \<Rightarrow> 'a list" where
  "splice1 idx xs = take idx xs @ drop (Suc idx) xs"

text \<open>startTimer: a looping timer of 1000 ms that counts three ticks and then spawns a
  ball.\<close>

definition startTimer :: "play_state \<Rightarrow> play_state" where
  "startTimer s = s\<lparr>timers := timers s @ [Countdown 3 1000]\<rparr>"

definition incrementScore :: "int \<Rightarrow> play_state \<Rightarrow> play_state" where
  "incrementScore v s = s\<lparr>score := score s + v\<rparr>"

text \<open>spawnBrick. The XForm of a brick has its origin in its top left corner (\<open>origx: 0,
  origy: 0\<close>), so \<open>minx\<close> and \<open>miny\<close> are 0, and its size is \<open>fixedWidth\<close> by \<open>fixedHeight\<close>.
  The new brick is the listener's \<open>evt.actor\<close> later on; it gets a fresh identity.\<close>

definition spawnBrick :: "nat \<Rightarrow> nat \<Rightarrow> int \<Rightarrow> play_state \<Rightarrow> play_state" where
  "spawnBrick col row h s =
     (let brickArea =
            \<lparr>b_x = js_round (pg_width s * brickLeftPct),
             b_y = js_round (pg_height s * brickTopPct),
             b_width = js_round (pg_width s * ((1 - brickRightPct) - brickLeftPct)),
             b_height = js_round (pg_height s * ((1 - brickBottomPct) - brickTopPct))\<rparr>;
          brickWidth = b_width brickArea / real maxCols;
          brickHeight = b_height brickArea / real maxRows;
          x = b_x brickArea + brickWidth * real col;
          y = b_y brickArea + brickHeight * real row;
          brick =
            \<lparr>brick_oid = next_oid s,
             brick_xform = \<lparr>xf_x = x, xf_y = y, xf_minx = 0, xf_miny = 0,
                            xf_width = brickWidth, xf_height = brickHeight\<rparr>,
             brick_score = Brick_cpre h (h * 100),
             hits = h\<rparr>
      in s\<lparr>bricks := bricks s @ [brick], next_oid := Suc (next_oid s)\<rparr>)"

text \<open>\<open>level[idx]\<close>: a read past the end of a JavaScript array gives \<open>undefined\<close>.\<close>

definition grid_cell :: "int list \<Rightarrow> nat \<Rightarrow> int option" where
  "grid_cell grid idx = (if idx < length grid then Some (grid ! idx) else None)"

text \<open>One pass of the inner loop of spawnLevel (over the rows \<open>j\<close>, for the column \<open>i\<close>);
  \<open>!brickTag\<close> holds for \<open>undefined\<close> and for 0.\<close>

definition spawn_cell :: "int list \<Rightarrow> nat \<Rightarrow> nat \<Rightarrow> play_state \<Rightarrow> play_state" where
  "spawn_cell grid i j s =
     (case grid_cell grid (i + j * maxCols) of
        None \<Rightarrow> s
      | Some brickTag \<Rightarrow> if brickTag = 0 then s else spawnBrick i j brickTag s)"

definition spawn_column :: "int list \<Rightarrow> nat \<Rightarrow> play_state \<Rightarrow> play_state" where
  "spawn_column grid i s = fold (spawn_cell grid i) [0..<maxRows] s"

text \<open>spawnLevel: \<open>levels[idx]\<close> is \<open>undefined\<close> for an index outside the table, and the
  first read \<open>level[idx]\<close> then throws a TypeError.\<close>

definition spawnLevel :: "nat \<Rightarrow> play_state \<Rightarrow> error + play_state" where
  "spawnLevel idx s =
     (let s1 = s\<lparr>level := idx\<rparr>
      in if idx < length (levels s1)
         then Inr (fold (spawn_column (levels s1 ! idx)) [0..<maxCols] s1)
         else Inl TypeError)"

text \<open>The callback of the timer that handleLevelComplete creates:
  \<open>this.spawnLevel(this.level+1); this.startTimer()\<close>.\<close>

definition fire_next_level :: "play_state \<Rightarrow> error + play_state" where
  "fire_next_level s =
     (case spawnLevel (level s + 1) s of
        Inl e \<Rightarrow> Inl e
      | Inr s1 \<Rightarrow> Inr (startTimer s1))"

text \<open>handleLevelComplete: every ball is destroyed, and \<open>this.balls\<close> becomes a new,
  empty array.\<close>

definition handleLevelComplete :: "play_state \<Rightarrow> play_state" where
  "handleLevelComplete s =
     (let s1 = s\<lparr>destroyed := destroyed s @ map ball_oid (balls s), balls := []\<rparr>
      in if level s1 + 1 \<ge> length (levels s1)
         then s1\<lparr>started := started s1 @ [(''win'', score s1)]\<rparr>
         else s1\<lparr>timers := timers s1 @ [NextLevel 0]\<rparr>)"

text \<open>onBrickDestroyed, the listener of the 'gizmo.destroyed' event of every brick;
  \<open>k\<close> is \<open>evt.actor\<close>.\<close>

definition onBrickDestroyed :: "brick \<Rightarrow> play_state \<Rightarrow> play_state" where
  "onBrickDestroyed k s =
     (if gameover s then s
      else
        let s1 = (case indexOf (brick_oid k) (map brick_oid (bricks s)) of
                    None \<Rightarrow> s
                  | Some idx \<Rightarrow> incrementScore (brick_score k) (s\<lparr>bricks := splice1 idx (bricks s)\<rparr>))
        in if length (bricks s1) = 0 then handleLevelComplete s1 else s1)"

text \<open>\<open>this.bricks[i].hit()\<close>, for an index \<open>i\<close> inside the array (the loop over the
  bricks calls it for no other): the brick object is updated in place, and its \<open>destroy()\<close>
  delivers 'gizmo.destroyed' to onBrickDestroyed before \<open>hit\<close> returns.\<close>

definition hit_brick :: "nat \<Rightarrow> play_state \<Rightarrow> play_state" where
  "hit_brick i s =
     (let (k', gone) = Brick_hit (bricks s ! i);
          s1 = s\<lparr>bricks := (bricks s)[i := k']\<rparr>
      in if gone then onBrickDestroyed k' s1 else s1)"

text \<open>lostBall. \<open>ball.destroy()\<close> is recorded in \<open>destroyed\<close>.\<close>

definition lostBall :: "ball \<Rightarrow> play_state \<Rightarrow> play_state" where
  "lostBall b s =
     (let s1 = (case indexOf (ball_oid b) (map ball_oid (balls s)) of
                  None \<Rightarrow> s
                | Some idx \<Rightarrow> s\<lparr>balls := splice1 idx (balls s)\<rparr>);
          s2 = s1\<lparr>destroyed := destroyed s1 @ [ball_oid b]\<rparr>
      in if length (balls s2) = 0
         then (let s3 = s2\<lparr>lives := lives s2 - 1\<rparr>
               in if lives s3 > 0 then startTimer s3
                  else s3\<lparr>gameover := True, started := started s3 @ [(''gameover'', score s3)]\<rparr>)
         else s2)"

subsection \<open>onBallTick\<close>

text \<open>The local variable \<open>collided\<close>: \<open>false\<close>, or the name of the last check that matched.\<close>

datatype collided = NoCollision | CPaddle | CLeft | CRight | CTop | CBrick

definition ball_dx :: "real \<Rightarrow> ball \<Rightarrow> real" where
  "ball_dx elapsed b = cos (angle b) * speed b * elapsed"

definition ball_dy :: "real \<Rightarrow> ball \<Rightarrow> real" where
  "ball_dy elapsed b = sin (angle b) * speed b * elapsed"

definition wantx :: "real \<Rightarrow> ball \<Rightarrow> real" where
  "wantx elapsed b = xf_x (ball_xform b) + ball_dx elapsed b"

definition wanty :: "real \<Rightarrow> ball \<Rightarrow> real" where
  "wanty elapsed b = xf_y (ball_xform b) + ball_dy elapsed b"

definition radius :: "ball \<Rightarrow> real" where
  "radius b = xf_width (ball_xform b) / 2"

definition ballBounds :: "real \<Rightarrow> ball \<Rightarrow> bounds" where
  "ballBounds elapsed b =
     \<lparr>b_x = wantx elapsed b + xf_minx (ball_xform b),
      b_y = wanty elapsed b + xf_miny (ball_xform b),
      b_width = xf_width (ball_xform b), b_height = xf_height (ball_xform b)\<rparr>"

text \<open>The new angle of a hit on the top face of the paddle: the displacement reflected
  about a normal that tilts with the place of the hit.\<close>

definition paddle_reflect :: "bounds \<Rightarrow> bounds \<Rightarrow> real \<Rightarrow> real \<Rightarrow> real" where
  "paddle_reflect pb isect dx dy =
     (let tilt = lerp (minx pb) (maxx pb) (pi * 1.3) (pi * 1.7) (midx isect);
          nx = cos tilt;
          ny = sin tilt;
          dot = nx * dx + ny * dy;
          vnewx = dx - 2 * dot * nx;
          vnewy = dy - 2 * dot * ny
      in atan2 vnewy vnewx)"

text \<open>The paddle check: the values of \<open>collided\<close>, \<open>ball.colliding\<close> and \<open>wantAngle\<close>
  after it.\<close>

definition paddle_check :: "real \<Rightarrow> ball \<Rightarrow> xform \<Rightarrow> collided \<times> bool \<times> real" where
  "paddle_check elapsed b pad =
     (if overlaps (ballBounds elapsed b) (entity_bounds pad) then
        if \<not> colliding b then
          (CPaddle, True,
           case intersects (ballBounds elapsed b) (entity_bounds pad) of
             None \<Rightarrow> angle b
           | Some isect \<Rightarrow>
               if b_width isect \<ge> b_height isect
               then paddle_reflect (entity_bounds pad) isect (ball_dx elapsed b) (ball_dy elapsed b)
               else pi - angle b)
        else (NoCollision, colliding b, angle b)
      else (NoCollision, False, angle b))"

text \<open>\<open>for (const wall of this.walls) if (wall.bounds.overlaps(ballBounds)) wall.hit()\<close>.\<close>

definition hit_walls :: "bounds \<Rightarrow> wall list \<Rightarrow> wall list" where
  "hit_walls bb ws =
     map (\<lambda>w. if overlaps (entity_bounds (wall_xform w)) bb then Wall_hit w else w) ws"

text \<open>The left/right check, on \<open>collided\<close>, \<open>wantAngle\<close> and the state.\<close>

definition side_check ::
  "real \<Rightarrow> ball \<Rightarrow> collided \<times> real \<times> play_state \<Rightarrow> collided \<times> real \<times> play_state" where
  "side_check elapsed b cws =
     (case cws of (c, wantAngle, s) \<Rightarrow>
        if wantx elapsed b - radius b \<le> leftEdge s
        then (CLeft, pi - angle b, s\<lparr>walls := hit_walls (ballBounds elapsed b) (walls s)\<rparr>)
        else if wantx elapsed b + radius b \<ge> rightEdge s
        then (CRight, pi - angle b, s\<lparr>walls := hit_walls (ballBounds elapsed b) (walls s)\<rparr>)
        else (c, wantAngle, s))"

text \<open>The loop over \<open>this.bricks\<close>, from index \<open>i\<close> on. The iterator of a JavaScript array
  reads the length of the array at every step, and a brick that is destroyed is spliced
  out of the array during the loop (hit_brick). Besides \<open>collided\<close>, \<open>wantAngle\<close> and the
  state, the loop hands on the intersections that were truthy, in the order found.\<close>

function brick_loop ::
  "bounds \<Rightarrow> real \<Rightarrow> nat \<Rightarrow> collided \<times> real \<times> bounds list \<times> play_state
     \<Rightarrow> collided \<times> real \<times> bounds list \<times> play_state" where
  "brick_loop bb a i (c, wantAngle, found, s) =
     (if i < length (bricks s) then
        (case intersects bb (entity_bounds (brick_xform (bricks s ! i))) of
           None \<Rightarrow> brick_loop bb a (i + 1) (c, wantAngle, found, s)
         | Some isect \<Rightarrow>
             brick_loop bb a (i + 1)
               (CBrick,
                (if b_width isect \<ge> b_height isect then pi * 2 - a else pi - a),
                found @ [isect],
                hit_brick i s))
      else (c, wantAngle, found, s))"
  by pat_completeness auto

text \<open>The loop ends: no step of it makes \<open>this.bricks\<close> longer.\<close>

lemma length_splice1: "length (splice1 i xs) \<le> length xs"
  by (simp add: splice1_def)

lemma bricks_handleLevelComplete: "bricks (handleLevelComplete s) = bricks s"
  by (simp add: handleLevelComplete_def Let_def)

lemma length_onBrickDestroyed: "length (bricks (onBrickDestroyed k s)) \<le> length (bricks s)"
  by (simp add: onBrickDestroyed_def Let_def bricks_handleLevelComplete incrementScore_def
      length_splice1 split: option.split)

lemma length_hit_brick: "length (bricks (hit_brick i s)) \<le> length (bricks s)"
proof -
  have "length (bricks (onBrickDestroyed k (s\<lparr>bricks := (bricks s)[i := k]\<rparr>))) \<le> length (bricks s)" for k
    using length_onBrickDestroyed [of k "s\<lparr>bricks := (bricks s)[i := k]\<rparr>"] by simp
  then show ?thesis
    by (simp add: hit_brick_def Let_def split: prod.split)
qed

termination brick_loop
proof (relation "measure (\<lambda>(bb, a, i, c, w, f, s). length (bricks s) - i)")
  show "wf (measure (\<lambda>(bb, a, i, c, w, f, s). length (bricks s) - i))" by simp
next
  fix bb :: bounds and a :: real and i :: nat and c :: collided and wantAngle :: real
    and found :: "bounds list" and s :: play_state
  assume "i < length (bricks s)"
  then show "((bb, a, i + 1, c, wantAngle, found, s), (bb, a, i, c, wantAngle, found, s))
      \<in> measure (\<lambda>(bb, a, i, c, w, f, s). length (bricks s) - i)"
    by simp
next
  fix bb :: bounds and a :: real and i :: nat and c :: collided and wantAngle :: real
    and found :: "bounds list" and s :: play_state and isect :: bounds
  assume "i < length (bricks s)"
  then show "((bb, a, i + 1, CBrick, if b_height isect \<le> b_width isect then pi * 2 - a else pi - a,
        found @ [isect], hit_brick i s), (bb, a, i, c, wantAngle, found, s))
      \<in> measure (\<lambda>(bb, a, i, c, w, f, s). length (bricks s) - i)"
    using length_hit_brick [of i s] by simp
qed

declare brick_loop.simps [simp del]

text \<open>The checks of one pass of the loop over the balls, up to the resolution: either the
  bottom check fired (\<open>this.lostBall(ball); return\<close>), or all checks ran and left
  \<open>collided\<close>, \<open>wantAngle\<close>, the intersections with the bricks hit, the ball (its
  \<open>colliding\<close> flag may have changed) and the state.\<close>

datatype checks =
  BottomLoss ball play_state
| Checked collided real "bounds list" ball play_state

definition ball_checks :: "real \<Rightarrow> ball \<Rightarrow> play_state \<Rightarrow> checks" where
  "ball_checks elapsed b s =
     (case paddle_check elapsed b (paddle s) of (c0, colliding', wantAngle0) \<Rightarrow>
      case side_check elapsed b (c0, wantAngle0, s) of (c1, wantAngle1, s1) \<Rightarrow>
        if wanty elapsed b - radius b \<le> topEdge s1 then
          (case brick_loop (ballBounds elapsed b) (angle b) 0
                  (CTop, pi * 2 - angle b, [],
                   s1\<lparr>walls := hit_walls (ballBounds elapsed b) (walls s1)\<rparr>) of
             (c, wantAngle, found, s2) \<Rightarrow>
               Checked c wantAngle found (b\<lparr>colliding := colliding'\<rparr>) s2)
        else if wanty elapsed b + radius b \<ge> bottomEdge s1 then
          BottomLoss (b\<lparr>colliding := colliding'\<rparr>) s1
        else
          (case brick_loop (ballBounds elapsed b) (angle b) 0 (c1, wantAngle1, [], s1) of
             (c, wantAngle, found, s2) \<Rightarrow>
               Checked c wantAngle found (b\<lparr>colliding := colliding'\<rparr>) s2))"

text \<open>The normalisation and the four clamps of the resolution, in the order of the source.\<close>

definition sanitize :: "real \<Rightarrow> real" where
  "sanitize wantAngle =
     (let w0 = js_rem (wantAngle + pi * 2) (pi * 2);
          w1 = (if w0 \<ge> 0 \<and> w0 < pi / 18 then pi / 18 else w0);
          w2 = (if w1 \<le> pi * 2 \<and> w1 > pi * 2 - pi / 18 then pi * 2 - pi / 18 else w1);
          w3 = (if w2 \<le> pi \<and> w2 > pi - pi / 18 then pi - pi / 18 else w2);
          w4 = (if w3 > pi \<and> w3 < pi + pi / 18 then pi + pi / 18 else w3)
      in w4)"

text \<open>The ball object is shared between the array that the loop iterates and
  \<open>this.balls\<close>: an update of the ball shows in \<open>this.balls\<close> as long as the ball is in it.\<close>

definition store_ball :: "ball \<Rightarrow> play_state \<Rightarrow> play_state" where
  "store_ball b s = s\<lparr>balls := map (\<lambda>c. if ball_oid c = ball_oid b then b else c) (balls s)\<rparr>"

text \<open>One pass of the loop over the balls: the ball after it, the state after it, and
  whether the pass left onBallTick by \<open>return\<close>.\<close>

datatype pass = Lost ball play_state | Done ball play_state

definition ball_tick :: "real \<Rightarrow> ball \<Rightarrow> play_state \<Rightarrow> pass" where
  "ball_tick elapsed b s =
     (case ball_checks elapsed b s of
        BottomLoss b1 s1 \<Rightarrow> Lost b1 (lostBall b1 s1)
      | Checked c wantAngle found b1 s1 \<Rightarrow>
          (let b2 = (if c \<noteq> NoCollision
                     then b1\<lparr>angle := sanitize wantAngle\<rparr>
                     else b1\<lparr>ball_xform := (ball_xform b1)
                            \<lparr>xf_x := xf_x (ball_xform b1) + ball_dx elapsed b,
                             xf_y := xf_y (ball_xform b1) + ball_dy elapsed b\<rparr>\<rparr>)
           in Done b2 (store_ball b2 s1)))"

text \<open>\<open>for (const ball of this.balls)\<close>: the loop runs over the array that \<open>this.balls\<close>
  held when it began. handleLevelComplete puts a new array into \<open>this.balls\<close> and leaves
  the old one as it is; lostBall splices the old one, and the \<open>return\<close> after it ends the
  loop. A ball object is written only in its own pass, so each pass finds its ball as it
  was when the loop began.\<close>

fun tick_loop :: "real \<Rightarrow> ball list \<Rightarrow> play_state \<Rightarrow> play_state" where
  "tick_loop elapsed [] s = s"
| "tick_loop elapsed (b # bs) s =
     (case ball_tick elapsed b s of
        Lost b' s' \<Rightarrow> s'
      | Done b' s' \<Rightarrow> tick_loop elapsed bs s')"

definition onBallTick :: "real \<Rightarrow> play_state \<Rightarrow> play_state" where
  "onBallTick elapsed s = tick_loop elapsed (balls s) s"

subsection \<open>The shipped levels and the initial state\<close>

text \<open>\<open>PlayState.levels\<close>: three grids of 11 rows and 9 columns, row by row.\<close>

definition shipped_levels :: "int list list" where
  "shipped_levels =
    [[1,0,0,0,0,0,0,0,1,
      0,0,0,0,0,0,0,0,0,
      0,0,0,0,0,0,0,0,0,
      0,0,0,0,0,0,0,0,0,
      0,0,0,0,0,0,0,0,0,
      1,1,2,0,3,0,2,1,1,
      0,0,0,0,0,0,0,0,0,
      0,0,0,0,0,0,0,0,0,
      0,0,0,0,0,0,0,0,0,
      0,0,0,0,0,0,0,0,0,
      1,0,0,0,0,0,0,0,1],
     [0,0,0,0,0,0,0,0,0,
      0,0,0,0,0,0,0,0,0,
      0,0,0,0,0,0,0,0,0,
      0,1,1,1,1,1,1,1,0,
      1,0,1,1,1,1,1,0,1,
      0,2,2,3,1,3,2,2,0,
      0,0,0,0,0,0,0,0,0,
      0,0,0,0,0,0,0,0,0,
      0,0,0,0,0,0,0,0,0,
      0,0,0,0,0,0,0,0,0,
      0,0,0,0,0,0,0,0,0],
     [0,0,0,0,0,0,0,0,0,
      0,2,2,3,1,3,2,2,0,
      1,0,1,0,1,0,1,0,1,
      0,1,1,1,1,1,1,1,0,
      1,0,1,0,1,0,1,0,1,
      0,2,2,3,1,3,2,2,0,
      0,0,0,0,0,0,0,0,0,
      0,0,0,0,0,0,0,0,0,
      0,0,0,0,0,0,0,0,0,
      0,0,0,0,0,0,0,0,0,
      0,0,0,0,0,0,0,0,0]]"

text \<open>The state that \<open>prepare\<close> sets up before it spawns the walls and the first level, for
  a playground of 480 by 600: score 0, three lives, level 0, no balls, bricks or walls;
  the edges are \<open>wallWidthPct * width\<close>, \<open>width - wallWidthPct * width\<close>,
  \<open>wallHeightPct * width\<close> and \<open>height\<close>; the paddle is 60 by 20 at (240, 520).\<close>

definition prepared :: play_state where
  "prepared =
     \<lparr>score = 0, lives = 3, level = 0, gameover = False,
      balls = [], bricks = [], walls = [],
      paddle = \<lparr>xf_x = 240, xf_y = 520, xf_minx = -30, xf_miny = -10,
                 xf_width = 60, xf_height = 20\<rparr>,
      leftEdge = 20, rightEdge = 460, topEdge = 16, bottomEdge = 600,
      pg_width = 480, pg_height = 600,
      levels = shipped_levels,
      timers = [], started = [], destroyed = [], next_oid = 0\<rparr>"

subsection \<open>spawnBall and the balls of a game\<close>

definition ballRadiusPct :: real where "ballRadiusPct = 1 / 48"
definition ballSpawnBufferPct :: real where "ballSpawnBufferPct = 0.1"
definition ballSpawnYPct :: real where "ballSpawnYPct = 15 / 30"
definition ballSpeed :: real where "ballSpeed = 0.24"

text \<open>spawnBall. The two random draws are parameters: \<open>rx\<close> is the result of
  \<open>Random.rangeInt(buffer+radius, width-(radius+buffer))\<close> and \<open>rangle\<close> the result of
  \<open>Random.range(Math.PI*.35, Math.PI*.65)\<close>. \<open>this.scale\<close> is \<open>playground.xform.width/480\<close>.
  The XForm of a ball has its origin in the middle, so \<open>minx\<close> and \<open>miny\<close> are minus half
  the size.\<close>

definition spawnBall :: "real \<Rightarrow> real \<Rightarrow> play_state \<Rightarrow> play_state" where
  "spawnBall rx rangle s =
     (let r = js_round (pg_width s * ballRadiusPct);
          buffer = js_round (pg_width s * ballSpawnBufferPct);
          x = rx;
          y = js_round (pg_height s * ballSpawnYPct);
          a = rangle;
          v = ballSpeed * (pg_width s / 480);
          ball = \<lparr>ball_oid = next_oid s,
                  ball_xform = \<lparr>xf_x = x, xf_y = y, xf_minx = - r, xf_miny = - r,
                                 xf_width = r * 2, xf_height = r * 2\<rparr>,
                  angle = a, speed = v, colliding = False\<rparr>
      in s\<lparr>balls := balls s @ [ball], next_oid := Suc (next_oid s)\<rparr>)"

fun pass_ball :: "pass \<Rightarrow> ball" where
  "pass_ball (Lost b s) = b"
| "pass_ball (Done b s) = b"

text \<open>The state of the game after a pass.\<close>

fun pass_state :: "pass \<Rightarrow> play_state" where
  "pass_state (Lost b s) = s"
| "pass_state (Done b s) = s"

text \<open>The balls that a game can hold: a ball is created by spawnBall, with an angle that
  \<open>Random.range\<close> has drawn between \<open>0.35 * pi\<close> and \<open>0.65 * pi\<close>, and from then on only
  onBallTick writes it, one pass per tick.\<close>

inductive tracked :: "ball \<Rightarrow> bool" where
  spawned: "pi * 0.35 \<le> rangle \<Longrightarrow> rangle \<le> pi * 0.65 \<Longrightarrow>
     b = last (balls (spawnBall rx rangle s)) \<Longrightarrow> tracked b"
| ticked: "tracked b \<Longrightarrow> ball_tick elapsed b s = Done b' s' \<Longrightarrow> tracked b'"

subsection \<open>The events of a game\<close>

text \<open>Modelled from the spec: the Timer class of the Gizmo library (not in src/), for the
  timers that PlayState creates. Section 4.2: the scheduler runs the callbacks of its
  entries to completion, one at a time; a looping entry stays until it is cancelled, a
  one-shot entry is gone once it has fired. \<open>fire k\<close> runs the callback of the pending
  timer number \<open>k\<close>. The callback of the countdown is the one of startTimer:
  \<open>tick--\<close>, and then either ticks are left and the timer stays, or \<open>timer.destroy()\<close>
  removes it and \<open>this.spawnBall()\<close> is called (\<open>rx\<close> and \<open>rangle\<close> are its two random
  draws). The callback of the timer of handleLevelComplete is \<open>fire_next_level\<close>.\<close>

definition fire :: "nat \<Rightarrow> real \<Rightarrow> real \<Rightarrow> play_state \<Rightarrow> error + play_state" where
  "fire k rx rangle s =
     (if k < length (timers s) then
        (case timers s ! k of
           Countdown tick ttl \<Rightarrow>
             if tick - 1 > 0
             then Inr (s\<lparr>timers := (timers s)[k := Countdown (tick - 1) ttl]\<rparr>)
             else Inr (spawnBall rx rangle (s\<lparr>timers := splice1 k (timers s)\<rparr>))
         | NextLevel ttl \<Rightarrow> fire_next_level (s\<lparr>timers := splice1 k (timers s)\<rparr>))
      else Inr s)"


subsection \<open>Names for the conditions of the checks\<close>

text \<open>The conditions under which the checks of onBallTick match, and the reflection that
  a brick gives, named for the statements below.\<close>

definition paddle_hit :: "real \<Rightarrow> ball \<Rightarrow> play_state \<Rightarrow> bool" where
  "paddle_hit elapsed b s \<longleftrightarrow>
     overlaps (ballBounds elapsed b) (entity_bounds (paddle s)) \<and> \<not> colliding b"

definition at_left :: "real \<Rightarrow> ball \<Rightarrow> play_state \<Rightarrow> bool" where
  "at_left elapsed b s \<longleftrightarrow> wantx elapsed b - radius b \<le> leftEdge s"

definition at_right :: "real \<Rightarrow> ball \<Rightarrow> play_state \<Rightarrow> bool" where
  "at_right elapsed b s \<longleftrightarrow> wantx elapsed b + radius b \<ge> rightEdge s"

definition at_top :: "real \<Rightarrow> ball \<Rightarrow> play_state \<Rightarrow> bool" where
  "at_top elapsed b s \<longleftrightarrow> wanty elapsed b - radius b \<le> topEdge s"

definition at_bottom :: "real \<Rightarrow> ball \<Rightarrow> play_state \<Rightarrow> bool" where
  "at_bottom elapsed b s \<longleftrightarrow> wanty elapsed b + radius b \<ge> bottomEdge s"

definition brick_reflect :: "bounds \<Rightarrow> real \<Rightarrow> real" where
  "brick_reflect isect a = (if b_width isect \<ge> b_height isect then pi * 2 - a else pi - a)"

text \<open>The clamp of the resolution in the words of the spec: an angle (in the range from 0
  to \<open>2 * pi\<close>) that is within \<open>pi / 18\<close> of 0, \<open>pi\<close> or \<open>2 * pi\<close> goes to the nearest
  boundary of that band, and any other angle stays.\<close>

definition snap :: "real \<Rightarrow> real" where
  "snap n =
     (if n < pi / 18 then pi / 18
      else if pi * 2 - pi / 18 < n then pi * 2 - pi / 18
      else if pi - pi / 18 < n \<and> n \<le> pi then pi - pi / 18
      else if pi < n \<and> n < pi + pi / 18 then pi + pi / 18
      else n)"

text \<open>The hit counts that spawnLevel gives to the bricks of one grid cell: none when the
  cell is absent or 0, and the value of the cell otherwise.\<close>

definition cell_hits :: "int list \<Rightarrow> nat \<Rightarrow> nat \<Rightarrow> int list" where
  "cell_hits grid i j =
     (case grid_cell grid (i + j * maxCols) of
        None \<Rightarrow> []
      | Some brickTag \<Rightarrow> if brickTag = 0 then [] else [brickTag])"

subsection \<open>Concrete inputs\<close>

text \<open>A wall of the left side, idle.\<close>

definition wall0 :: wall where
  "wall0 = \<lparr>wall_xform = \<lparr>xf_x = 0, xf_y = 0, xf_minx = 0, xf_miny = 0, xf_width = 20, xf_height = 80\<rparr>,
            wall_state = Idle, wall_timers = []\<rparr>"

text \<open>A ball in the middle of the playground, moving straight down: the ball that
  \<open>spawnBall 240 (pi / 2)\<close> creates in the prepared state.\<close>

definition ball0 :: ball where
  "ball0 = \<lparr>ball_oid = 0,
            ball_xform = \<lparr>xf_x = 240, xf_y = 300, xf_minx = -10, xf_miny = -10,
                           xf_width = 20, xf_height = 20\<rparr>,
            angle = pi / 2, speed = 0.24, colliding = False\<rparr>"

text \<open>A ball 12 above the bottom edge, moving straight down.\<close>

definition low_ball :: ball where
  "low_ball = \<lparr>ball_oid = 8,
            ball_xform = \<lparr>xf_x = 100, xf_y = 588, xf_minx = -10, xf_miny = -10,
                           xf_width = 20, xf_height = 20\<rparr>,
            angle = pi / 2, speed = 0.24, colliding = False\<rparr>"

text \<open>A ball just above the paddle of the prepared state, moving straight down.\<close>

definition paddle_ball :: ball where
  "paddle_ball = \<lparr>ball_oid = 1,
            ball_xform = \<lparr>xf_x = 240, xf_y = 500, xf_minx = -10, xf_miny = -10,
                           xf_width = 20, xf_height = 20\<rparr>,
            angle = pi / 2, speed = 0.24, colliding = False\<rparr>"



text \<open>The prepared state with the paddle raised to just below the place where balls are
  spawned.\<close>

definition raised :: play_state where
  "raised = prepared\<lparr>paddle := \<lparr>xf_x = 240, xf_y = 320, xf_minx = -30, xf_miny = -10,
                                   xf_width = 60, xf_height = 20\<rparr>\<rparr>"

text \<open>A brick of one hit, where the first level has its first brick, and the prepared
  state with this brick alone.\<close>

definition brick0 :: brick where
  "brick0 = \<lparr>brick_oid = 0,
             brick_xform = \<lparr>xf_x = 60, xf_y = 60, xf_minx = 0, xf_miny = 0,
                            xf_width = 40, xf_height = 20\<rparr>,
             brick_score = 100, hits = 1\<rparr>"

definition one_brick :: play_state where
  "one_brick = prepared\<lparr>bricks := [brick0], next_oid := 1\<rparr>"

text \<open>The ball \<open>ball0\<close> with its \<open>colliding\<close> flag still set: a ball that has left the
  paddle.\<close>

definition leaving_ball :: ball where
  "leaving_ball = ball0\<lparr>colliding := True\<rparr>"


section \<open>Properties\<close>

subsection \<open>Arrays of objects\<close>

lemma indexOf_nth: "distinct xs \<Longrightarrow> i < length xs \<Longrightarrow> indexOf (xs ! i) xs = Some i"
proof (induction xs arbitrary: i)
  case Nil
  then show ?case by simp
next
  case (Cons x xs)
  show ?case
  proof (cases i)
    case 0
    then show ?thesis by simp
  next
    case (Suc j)
    then have "xs ! j \<noteq> x" using Cons.prems by auto
    then show ?thesis using Suc Cons by simp
  qed
qed

lemma indexOf_oid:
  "distinct (map f xs) \<Longrightarrow> i < length xs \<Longrightarrow> indexOf (f (xs ! i)) (map f xs) = Some i"
  using indexOf_nth [of "map f xs" i] by simp

lemma splice1_update: "splice1 i (xs[i := v]) = splice1 i xs"
  by (simp add: splice1_def)

lemma xforms_splice1: "set (map f (splice1 i xs)) \<subseteq> set (map f xs)"
  by (auto simp: splice1_def dest: in_set_takeD in_set_dropD)


subsection \<open>The checks of one pass\<close>

lemma xforms_onBrickDestroyed:
  "set (map brick_xform (bricks (onBrickDestroyed k s))) \<subseteq> set (map brick_xform (bricks s))"
  using xforms_splice1 [of brick_xform _ "bricks s"]
  by (simp add: onBrickDestroyed_def Let_def bricks_handleLevelComplete incrementScore_def
      split: option.split)

lemma xforms_hit_brick:
  "set (map brick_xform (bricks (hit_brick i s))) \<subseteq> set (map brick_xform (bricks s))"
proof -
  let ?k = "(bricks s ! i)\<lparr>hits := hits (bricks s ! i) - 1\<rparr>"
  let ?s1 = "s\<lparr>bricks := (bricks s)[i := ?k]\<rparr>"
  have same: "map brick_xform (bricks ?s1) = map brick_xform (bricks s)"
  proof (cases "i < length (bricks s)")
    case True
    then show ?thesis by (simp add: map_update list_update_same_conv)
  next
    case False
    then show ?thesis by (simp add: list_update_beyond)
  qed
  have "set (map brick_xform (bricks (onBrickDestroyed ?k ?s1))) \<subseteq> set (map brick_xform (bricks s))"
    using xforms_onBrickDestroyed [of ?k ?s1] unfolding same .
  moreover have "set (map brick_xform (bricks ?s1)) \<subseteq> set (map brick_xform (bricks s))"
    unfolding same by simp
  ultimately show ?thesis
    by (simp add: hit_brick_def Brick_hit_def Let_def)
qed

lemma brick_loop_found:
  "brick_loop bb a i (c, w, f, s) = (c', w', f', s') \<Longrightarrow>
     \<exists>g. f' = f @ g \<and>
         (if g = [] then c' = c \<and> w' = w
          else c' = CBrick \<and>
               w' = (if b_width (last g) \<ge> b_height (last g) then pi * 2 - a else pi - a)) \<and>
         (\<forall>x \<in> set g. \<exists>xf \<in> set (map brick_xform (bricks s)).
            intersects bb (entity_bounds xf) = Some x)"
proof (induction bb a i "(c, w, f, s)" arbitrary: c w f s rule: brick_loop.induct)
  case (1 bb a i c w f s)
  show ?case
  proof (cases "i < length (bricks s)")
    case False
    with "1.prems" show ?thesis by (simp add: brick_loop.simps)
  next
    case True
    show ?thesis
    proof (cases "intersects bb (entity_bounds (brick_xform (bricks s ! i)))")
      case None
      with True "1.prems" have "brick_loop bb a (i + 1) (c, w, f, s) = (c', w', f', s')"
        by (simp add: brick_loop.simps)
      from "1.hyps"(1) [OF True None this] show ?thesis .
    next
      case (Some isect)
      let ?w = "if b_width isect \<ge> b_height isect then pi * 2 - a else pi - a"
      from True Some "1.prems"
      have "brick_loop bb a (i + 1) (CBrick, ?w, f @ [isect], hit_brick i s) = (c', w', f', s')"
        by (simp add: brick_loop.simps)
      from "1.hyps"(2) [OF True Some this]
      obtain g where g: "f' = (f @ [isect]) @ g"
        "if g = [] then c' = CBrick \<and> w' = ?w
         else c' = CBrick \<and> w' = (if b_width (last g) \<ge> b_height (last g) then pi * 2 - a else pi - a)"
        "\<forall>x \<in> set g. \<exists>xf \<in> set (map brick_xform (bricks (hit_brick i s))).
            intersects bb (entity_bounds xf) = Some x"
        by blast
      have here: "brick_xform (bricks s ! i) \<in> set (map brick_xform (bricks s))"
        using True by simp
      show ?thesis
      proof (intro exI [of _ "isect # g"] conjI)
        show "f' = f @ isect # g" using g(1) by simp
        show "if isect # g = [] then c' = c \<and> w' = w
          else c' = CBrick \<and>
               w' = (if b_width (last (isect # g)) \<ge> b_height (last (isect # g)) then pi * 2 - a else pi - a)"
          using g(2) by (cases "g = []") simp_all
        show "\<forall>x \<in> set (isect # g). \<exists>xf \<in> set (map brick_xform (bricks s)).
            intersects bb (entity_bounds xf) = Some x"
          using g(3) xforms_hit_brick [of i s] here Some by (metis set_ConsD subsetD)
      qed
    qed
  qed
qed

lemma side_check_frame:
  "side_check elapsed b (c, w, s) = (c1, w1, s1) \<Longrightarrow>
     bricks s1 = bricks s \<and> topEdge s1 = topEdge s \<and> bottomEdge s1 = bottomEdge s \<and>
     balls s1 = balls s \<and> lives s1 = lives s \<and> score s1 = score s \<and>
     c1 = (if at_left elapsed b s then CLeft else if at_right elapsed b s then CRight else c) \<and>
     w1 = (if at_left elapsed b s \<or> at_right elapsed b s then pi - angle b else w)"
  by (auto simp: side_check_def at_left_def at_right_def split: if_splits)

lemma side_check_walls:
  "\<exists>ws. snd (snd (side_check elapsed b (c, w, s))) = s\<lparr>walls := ws\<rparr>"
proof (cases "at_left elapsed b s \<or> at_right elapsed b s")
  case True
  then show ?thesis
    by (auto simp: side_check_def at_left_def at_right_def)
next
  case False
  then have "snd (snd (side_check elapsed b (c, w, s))) = s\<lparr>walls := walls s\<rparr>"
    by (simp add: side_check_def at_left_def at_right_def)
  then show ?thesis by (rule exI)
qed

lemma ball_checks_Checked:
  assumes "ball_checks elapsed b s = Checked c w f b1 s1"
  shows "b1 = b\<lparr>colliding := fst (snd (paddle_check elapsed b (paddle s)))\<rparr>"
    and "at_top elapsed b s \<or> \<not> at_bottom elapsed b s"
    and "w = (if f \<noteq> [] then brick_reflect (last f) (angle b)
              else if at_top elapsed b s then pi * 2 - angle b
              else if at_left elapsed b s \<or> at_right elapsed b s then pi - angle b
              else snd (snd (paddle_check elapsed b (paddle s))))"
    and "c = (if f \<noteq> [] then CBrick
              else if at_top elapsed b s then CTop
              else if at_left elapsed b s then CLeft
              else if at_right elapsed b s then CRight
              else fst (paddle_check elapsed b (paddle s)))"
    and "\<forall>x \<in> set f. \<exists>k \<in> set (bricks s).
           intersects (ballBounds elapsed b) (entity_bounds (brick_xform k)) = Some x"
proof -
  obtain c0 col0 w0 where pc: "paddle_check elapsed b (paddle s) = (c0, col0, w0)"
    by (metis prod_cases3)
  obtain c1 w1 s1' where sc: "side_check elapsed b (c0, w0, s) = (c1, w1, s1')"
    by (metis prod_cases3)
  note fr = side_check_frame [OF sc]
  let ?top = "s1'\<lparr>walls := hit_walls (ballBounds elapsed b) (walls s1')\<rparr>"
  have shape: "b1 = b\<lparr>colliding := col0\<rparr> \<and> (at_top elapsed b s \<or> \<not> at_bottom elapsed b s) \<and>
      brick_loop (ballBounds elapsed b) (angle b) 0
        (if at_top elapsed b s then (CTop, pi * 2 - angle b, [], ?top) else (c1, w1, [], s1'))
        = (c, w, f, s1)"
    using assms fr
    by (auto simp: ball_checks_def pc sc at_top_def at_bottom_def split: if_splits prod.splits)
  then have loop: "brick_loop (ballBounds elapsed b) (angle b) 0
        (if at_top elapsed b s then (CTop, pi * 2 - angle b, [], ?top) else (c1, w1, [], s1'))
        = (c, w, f, s1)" by simp
  show "b1 = b\<lparr>colliding := fst (snd (paddle_check elapsed b (paddle s)))\<rparr>"
    using shape by (simp add: pc)
  show "at_top elapsed b s \<or> \<not> at_bottom elapsed b s" using shape by simp
  have found: "(if f = [] then
                  c = (if at_top elapsed b s then CTop else c1) \<and>
                  w = (if at_top elapsed b s then pi * 2 - angle b else w1)
                else c = CBrick \<and> w = brick_reflect (last f) (angle b)) \<and>
               (\<forall>x \<in> set f. \<exists>xf \<in> set (map brick_xform (bricks s)).
                  intersects (ballBounds elapsed b) (entity_bounds xf) = Some x)"
  proof (cases "at_top elapsed b s")
    case True
    with loop have "brick_loop (ballBounds elapsed b) (angle b) 0 (CTop, pi * 2 - angle b, [], ?top)
        = (c, w, f, s1)" by simp
    from brick_loop_found [OF this] True fr show ?thesis
      by (auto simp: brick_reflect_def)
  next
    case False
    with loop have "brick_loop (ballBounds elapsed b) (angle b) 0 (c1, w1, [], s1') = (c, w, f, s1)"
      by simp
    from brick_loop_found [OF this] False fr show ?thesis
      by (auto simp: brick_reflect_def)
  qed
  show "w = (if f \<noteq> [] then brick_reflect (last f) (angle b)
              else if at_top elapsed b s then pi * 2 - angle b
              else if at_left elapsed b s \<or> at_right elapsed b s then pi - angle b
              else snd (snd (paddle_check elapsed b (paddle s))))"
    using found fr by (simp add: pc split: if_splits)
  show "c = (if f \<noteq> [] then CBrick
              else if at_top elapsed b s then CTop
              else if at_left elapsed b s then CLeft
              else if at_right elapsed b s then CRight
              else fst (paddle_check elapsed b (paddle s)))"
    using found fr by (simp add: pc split: if_splits)
  show "\<forall>x \<in> set f. \<exists>k \<in> set (bricks s).
           intersects (ballBounds elapsed b) (entity_bounds (brick_xform k)) = Some x"
    using found by auto
qed


lemma ball_checks_BottomLoss:
  assumes "ball_checks elapsed b s = BottomLoss b1 s1"
  shows "b1 = b\<lparr>colliding := fst (snd (paddle_check elapsed b (paddle s)))\<rparr>"
    and "\<not> at_top elapsed b s" and "at_bottom elapsed b s"
proof -
  obtain c0 col0 w0 where pc: "paddle_check elapsed b (paddle s) = (c0, col0, w0)"
    by (metis prod_cases3)
  obtain c1 w1 s1' where sc: "side_check elapsed b (c0, w0, s) = (c1, w1, s1')"
    by (metis prod_cases3)
  note fr = side_check_frame [OF sc]
  have "b1 = b\<lparr>colliding := col0\<rparr> \<and> \<not> at_top elapsed b s \<and> at_bottom elapsed b s"
    using assms fr
    by (auto simp: ball_checks_def pc sc at_top_def at_bottom_def split: if_splits prod.splits)
  then show "b1 = b\<lparr>colliding := fst (snd (paddle_check elapsed b (paddle s)))\<rparr>"
    and "\<not> at_top elapsed b s" and "at_bottom elapsed b s"
    by (simp_all add: pc)
qed

lemma paddle_check_fst:
  "fst (paddle_check elapsed b (paddle s)) = (if paddle_hit elapsed b s then CPaddle else NoCollision)"
  by (simp add: paddle_check_def paddle_hit_def)

lemma ball_tick_Checked:
  "ball_checks elapsed b s = Checked c w f b1 s1 \<Longrightarrow>
     ball_tick elapsed b s =
       (let b2 = (if c \<noteq> NoCollision then b1\<lparr>angle := sanitize w\<rparr>
                  else b1\<lparr>ball_xform := (ball_xform b1)
                          \<lparr>xf_x := xf_x (ball_xform b1) + ball_dx elapsed b,
                           xf_y := xf_y (ball_xform b1) + ball_dy elapsed b\<rparr>\<rparr>)
        in Done b2 (store_ball b2 s1))"
  by (simp add: ball_tick_def)

lemma lostBall_oid: "ball_oid b1 = ball_oid b \<Longrightarrow> lostBall b1 s = lostBall b s"
  by (simp add: lostBall_def)

lemma ball_tick_bottom:
  assumes "\<not> at_top elapsed b s" and "at_bottom elapsed b s"
  shows "\<exists>ws. ball_tick elapsed b s
           = Lost (b\<lparr>colliding := fst (snd (paddle_check elapsed b (paddle s)))\<rparr>)
               (lostBall b (s\<lparr>walls := ws\<rparr>))"
proof -
  obtain c0 col0 w0 where pc: "paddle_check elapsed b (paddle s) = (c0, col0, w0)"
    by (metis prod_cases3)
  obtain c1 w1 s1 where sc: "side_check elapsed b (c0, w0, s) = (c1, w1, s1)"
    by (metis prod_cases3)
  obtain ws where ws: "s1 = s\<lparr>walls := ws\<rparr>"
    using side_check_walls [of elapsed b c0 w0 s] by (auto simp: sc)
  have "ball_checks elapsed b s = BottomLoss (b\<lparr>colliding := col0\<rparr>) s1"
    using assms side_check_frame [OF sc]
    by (simp add: ball_checks_def pc sc at_top_def at_bottom_def)
  then have "ball_tick elapsed b s = Lost (b\<lparr>colliding := col0\<rparr>) (lostBall b s1)"
    by (simp add: ball_tick_def lostBall_oid [of "b\<lparr>colliding := col0\<rparr>" b])
  then show ?thesis using ws pc by auto
qed

lemma colliding_pass_ball:
  "colliding (pass_ball (ball_tick elapsed b s)) = fst (snd (paddle_check elapsed b (paddle s)))"
proof (cases "ball_checks elapsed b s")
  case (BottomLoss b1 s1)
  then show ?thesis
    using ball_checks_BottomLoss(1) [OF BottomLoss] by (simp add: ball_tick_def)
next
  case (Checked c w f b1 s1)
  then show ?thesis
    using ball_checks_Checked(1) [OF Checked] by (simp add: ball_tick_Checked [OF Checked] Let_def)
qed

lemma overlaps_intersects:
  "overlaps a b \<Longrightarrow> \<exists>isect. intersects a b = Some isect"
  by (simp add: intersects_def)

lemma midx_intersects:
  assumes "intersects a p = Some isect"
  shows "minx p \<le> midx isect \<and> midx isect \<le> maxx p"
proof -
  have o: "overlaps a p" using assms by (simp add: intersects_def split: if_splits)
  have i: "isect = \<lparr>b_x = max (minx a) (minx p), b_y = max (miny a) (miny p),
                 b_width = min (maxx a) (maxx p) - max (minx a) (minx p),
                 b_height = min (maxy a) (maxy p) - max (miny a) (miny p)\<rparr>"
    using assms by (simp add: intersects_def split: if_splits)
  have m: "midx isect = (max (minx a) (minx p) + min (maxx a) (maxx p)) / 2"
    unfolding i by (simp add: midx_def field_simps)
  have "max (minx a) (minx p) \<le> min (maxx a) (maxx p)" using o by (simp add: overlaps_def)
  then show ?thesis unfolding m by (simp add: max_def min_def split: if_splits)
qed

lemma tilt_range:
  assumes "lo \<le> m" and "m \<le> hi" and "lo < hi"
  shows "pi * 1.3 \<le> pi * 1.3 + (m - lo) * (pi * 1.7 - pi * 1.3) / (hi - lo) \<and>
         pi * 1.3 + (m - lo) * (pi * 1.7 - pi * 1.3) / (hi - lo) \<le> pi * 1.7"
proof -
  have d: "0 < hi - lo" using assms by simp
  have q: "0 \<le> (m - lo) / (hi - lo)" "(m - lo) / (hi - lo) \<le> 1"
    using assms d by simp_all
  have e: "(m - lo) * (pi * 1.7 - pi * 1.3) / (hi - lo) = ((m - lo) / (hi - lo)) * (pi * 0.4)"
    by (simp add: field_simps)
  have p: "0 < pi * 0.4" by simp
  have "0 \<le> ((m - lo) / (hi - lo)) * (pi * 0.4)"
    using q(1) p by (simp only: mult_nonneg_nonneg less_imp_le)
  moreover have "((m - lo) / (hi - lo)) * (pi * 0.4) \<le> 1 * (pi * 0.4)"
    using q(2) p by (intro mult_right_mono) simp_all
  moreover have "pi * 1.3 + 1 * (pi * 0.4) = pi * 1.7" by simp
  ultimately show ?thesis unfolding e by linarith
qed

lemma paddle_check_angle:
  "snd (snd (paddle_check elapsed b pad)) = angle b \<or>
   snd (snd (paddle_check elapsed b pad)) = pi - angle b \<or>
   (\<exists>isect. intersects (ballBounds elapsed b) (entity_bounds pad) = Some isect \<and>
      snd (snd (paddle_check elapsed b pad))
        = paddle_reflect (entity_bounds pad) isect (ball_dx elapsed b) (ball_dy elapsed b))"
  by (auto simp: paddle_check_def split: option.split)


subsection \<open>Angles\<close>

lemma js_rem_nonneg:
  assumes "0 \<le> a" and "0 < n"
  shows "0 \<le> js_rem a n" and "js_rem a n < n" and "js_rem a n = a - n * of_int \<lfloor>a / n\<rfloor>"
proof -
  have q: "0 \<le> a / n" using assms by simp
  show eq: "js_rem a n = a - n * of_int \<lfloor>a / n\<rfloor>"
    using q by (simp add: js_rem_def)
  have "of_int \<lfloor>a / n\<rfloor> * n \<le> a"
    using floor_divide_lower [OF assms(2)] .
  then show "0 \<le> js_rem a n" by (simp add: eq mult.commute)
  have "a < (of_int \<lfloor>a / n\<rfloor> + 1) * n"
    using floor_divide_upper [OF assms(2)] .
  then show "js_rem a n < n" by (simp add: eq algebra_simps)
qed

lemma sanitize_snap:
  assumes "- (pi * 2) \<le> w"
  shows "0 \<le> js_rem (w + pi * 2) (pi * 2)" and "js_rem (w + pi * 2) (pi * 2) < pi * 2"
    and "sanitize w = snap (js_rem (w + pi * 2) (pi * 2))"
proof -
  have a: "0 \<le> w + pi * 2" using assms by simp
  have n: "(0::real) < pi * 2" by simp
  show r1: "0 \<le> js_rem (w + pi * 2) (pi * 2)" and r2: "js_rem (w + pi * 2) (pi * 2) < pi * 2"
    using js_rem_nonneg(1,2) [OF a n] by simp_all
  have "(let w0 = n;
          w1 = (if w0 \<ge> 0 \<and> w0 < p / 18 then p / 18 else w0);
          w2 = (if w1 \<le> p * 2 \<and> w1 > p * 2 - p / 18 then p * 2 - p / 18 else w1);
          w3 = (if w2 \<le> p \<and> w2 > p - p / 18 then p - p / 18 else w2);
          w4 = (if w3 > p \<and> w3 < p + p / 18 then p + p / 18 else w3)
      in w4) =
     (if n < p / 18 then p / 18
      else if p * 2 - p / 18 < n then p * 2 - p / 18
      else if p - p / 18 < n \<and> n \<le> p then p - p / 18
      else if p < n \<and> n < p + p / 18 then p + p / 18
      else n)" if "0 \<le> n" "n < p * 2" "0 < p" for n p :: real
    using that by (auto simp: Let_def)
  from this [OF r1 r2 pi_gt_zero]
  show "sanitize w = snap (js_rem (w + pi * 2) (pi * 2))"
    unfolding sanitize_def snap_def .
qed

lemma snap_range:
  assumes "0 \<le> n" and "n < pi * 2"
  shows "(pi / 18 \<le> snap n \<and> snap n \<le> pi - pi / 18) \<or>
         (pi + pi / 18 \<le> snap n \<and> snap n \<le> pi * 2 - pi / 18)"
proof -
  have "(p / 18 \<le> x \<and> x \<le> p - p / 18) \<or> (p + p / 18 \<le> x \<and> x \<le> p * 2 - p / 18)"
    if "0 \<le> n" "n < p * 2" "0 < p"
      and "x = (if n < p / 18 then p / 18
      else if p * 2 - p / 18 < n then p * 2 - p / 18
      else if p - p / 18 < n \<and> n \<le> p then p - p / 18
      else if p < n \<and> n < p + p / 18 then p + p / 18
      else n)" for n p x :: real
    using that by (auto split: if_splits)
  from this [OF assms pi_gt_zero, of "snap n"] show ?thesis
    by (simp add: snap_def)
qed

lemma atan2_range: "- pi < atan2 vy vx \<and> atan2 vy vx \<le> pi"
proof -
  have b: "- (pi / 2) < arctan (vy / vx)" "arctan (vy / vx) < pi / 2"
    by (rule arctan_lbound, rule arctan_ubound)
  have p: "0 < pi" by (rule pi_gt_zero)
  consider "0 < vx" | "vx < 0" "0 \<le> vy" | "vx < 0" "vy < 0" | "vx = 0" "0 < vy"
    | "vx = 0" "vy < 0" | "vx = 0" "vy = 0"
    by linarith
  then show ?thesis
  proof cases
    case 1
    then have "atan2 vy vx = arctan (vy / vx)" by (simp add: atan2_def)
    with b p show ?thesis by linarith
  next
    case 2
    then have e: "atan2 vy vx = arctan (vy / vx) + pi" by (simp add: atan2_def)
    from 2 have "vy / vx \<le> 0" by (simp add: divide_nonneg_neg)
    then have "arctan (vy / vx) \<le> 0" by (simp add: arctan_le_zero_iff)
    with e b p show ?thesis by linarith
  next
    case 3
    then have e: "atan2 vy vx = arctan (vy / vx) - pi" by (simp add: atan2_def)
    from 3 have "0 < vy / vx" by (simp add: divide_neg_neg)
    then have "0 < arctan (vy / vx)" by (simp add: zero_less_arctan_iff)
    with e b p show ?thesis by linarith
  next
    case 4
    then have "atan2 vy vx = pi / 2" by (simp add: atan2_def)
    with p show ?thesis by linarith
  next
    case 5
    then have "atan2 vy vx = - (pi / 2)" by (simp add: atan2_def)
    with p show ?thesis by linarith
  next
    case 6
    then have "atan2 vy vx = 0" by (simp add: atan2_def)
    with p show ?thesis by linarith
  qed
qed

lemma paddle_reflect_range:
  "- pi < paddle_reflect pb isect dx dy \<and> paddle_reflect pb isect dx dy \<le> pi"
  by (simp add: paddle_reflect_def Let_def atan2_range)

lemma candidate_range:
  assumes a: "0 \<le> angle b" "angle b < pi * 2"
    and ch: "ball_checks elapsed b s = Checked c w f b1 s1"
  shows "- pi < w \<and> w \<le> pi * 2"
proof -
  have p: "0 < pi" by (rule pi_gt_zero)
  define v where "v = snd (snd (paddle_check elapsed b (paddle s)))"
  have "v = angle b \<or> v = pi - angle b \<or>
      (\<exists>isect. v = paddle_reflect (entity_bounds (paddle s)) isect (ball_dx elapsed b) (ball_dy elapsed b))"
    using paddle_check_angle [of elapsed b "paddle s"] unfolding v_def by blast
  then have "- pi < v \<and> v \<le> pi * 2"
  proof (elim disjE exE)
    assume "v = angle b"
    with a p show ?thesis by linarith
  next
    assume "v = pi - angle b"
    with a p show ?thesis by linarith
  next
    fix isect
    assume "v = paddle_reflect (entity_bounds (paddle s)) isect (ball_dx elapsed b) (ball_dy elapsed b)"
    with paddle_reflect_range [of "entity_bounds (paddle s)" isect "ball_dx elapsed b" "ball_dy elapsed b"] p
    show ?thesis by linarith
  qed
  then have pc: "- pi < snd (snd (paddle_check elapsed b (paddle s))) \<and>
      snd (snd (paddle_check elapsed b (paddle s))) \<le> pi * 2"
    unfolding v_def .
  have "w = pi * 2 - angle b \<or> w = pi - angle b \<or> w = snd (snd (paddle_check elapsed b (paddle s)))"
    unfolding ball_checks_Checked(3) [OF ch] by (simp add: brick_reflect_def)
  with pc a p show ?thesis by (elim disjE) linarith+
qed

lemma last_spawnBall: "angle (last (balls (spawnBall rx rangle s))) = rangle"
  by (simp add: spawnBall_def Let_def)

lemma tracked_angle: "tracked b \<Longrightarrow> 0 \<le> angle b \<and> angle b < pi * 2"
proof (induction rule: tracked.induct)
  case (spawned rangle b rx s)
  have p: "0 < pi" by (rule pi_gt_zero)
  have "angle b = rangle" using spawned(3) by (simp add: last_spawnBall)
  moreover have "pi * 7 \<le> rangle * 20" "rangle * 20 \<le> pi * 13"
    using spawned(1,2) by simp_all
  ultimately show ?case using p by linarith
next
  case (ticked b elapsed s b' s')
  have p: "0 < pi" by (rule pi_gt_zero)
  obtain c w f b1 s1 where ch: "ball_checks elapsed b s = Checked c w f b1 s1"
    using ticked.hyps(2) by (cases "ball_checks elapsed b s") (simp_all add: ball_tick_def)
  have b1: "angle b1 = angle b"
    unfolding ball_checks_Checked(1) [OF ch] by simp
  show ?case
  proof (cases "c = NoCollision")
    case True
    then have "angle b' = angle b"
      using ticked.hyps(2) b1 by (auto simp: ball_tick_Checked [OF ch] Let_def)
    with ticked.IH show ?thesis by simp
  next
    case False
    then have e: "angle b' = sanitize w"
      using ticked.hyps(2) by (auto simp: ball_tick_Checked [OF ch] Let_def)
    have w: "- (pi * 2) \<le> w"
      using candidate_range [OF _ _ ch] ticked.IH p by simp
    note sn = sanitize_snap [OF w]
    from snap_range [OF sn(1,2)] p show ?thesis
      unfolding e sn(3) by linarith
  qed
qed


subsection \<open>The checks at the concrete inputs\<close>

lemma trig_3_2: "cos (3 * pi / 2) = 0" "sin (3 * pi / 2) = - 1"
  using cos_3over2_pi sin_3over2_pi by simp_all

lemma sanitize_neg_half_pi: "sanitize (- (pi / 2)) = pi * 3 / 2"
proof -
  have "js_rem (- (pi / 2) + pi * 2) (pi * 2) = pi * 3 / 2"
    by (simp add: js_rem_def)
  then show ?thesis
    using pi_gt_zero by (simp add: sanitize_def Let_def)
qed


lemma prepared_sel:
  "paddle (prepared\<lparr>balls := bs\<rparr>) = \<lparr>xf_x = 240, xf_y = 520, xf_minx = -30, xf_miny = -10,
                 xf_width = 60, xf_height = 20\<rparr>"
  "leftEdge (prepared\<lparr>balls := bs\<rparr>) = 20" "rightEdge (prepared\<lparr>balls := bs\<rparr>) = 460"
  "topEdge (prepared\<lparr>balls := bs\<rparr>) = 16" "bottomEdge (prepared\<lparr>balls := bs\<rparr>) = 600"
  "bricks (prepared\<lparr>balls := bs\<rparr>) = []" "walls (prepared\<lparr>balls := bs\<rparr>) = []"
  "balls (prepared\<lparr>balls := bs\<rparr>) = bs" "lives (prepared\<lparr>balls := bs\<rparr>) = 3"
  "destroyed (prepared\<lparr>balls := bs\<rparr>) = []"
  by (simp_all add: prepared_def)

lemma ball0_geom:
  "ball_dx 16 ball0 = 0" "ball_dy 16 ball0 = 3.84" "wantx 16 ball0 = 240" "wanty 16 ball0 = 303.84"
  "radius ball0 = 10"
  "ballBounds 16 ball0 = \<lparr>b_x = 230, b_y = 293.84, b_width = 20, b_height = 20\<rparr>"
  by (simp_all add: ball_dx_def ball_dy_def wantx_def wanty_def radius_def ballBounds_def ball0_def)

lemma ball0_sel: "angle ball0 = pi / 2" "colliding ball0 = False"
  by (simp_all add: ball0_def)

lemma low_ball_geom:
  "ball_dx 16 low_ball = 0" "ball_dy 16 low_ball = 3.84" "wantx 16 low_ball = 100" "wanty 16 low_ball = 591.84"
  "radius low_ball = 10"
  "ballBounds 16 low_ball = \<lparr>b_x = 90, b_y = 581.84, b_width = 20, b_height = 20\<rparr>"
  by (simp_all add: ball_dx_def ball_dy_def wantx_def wanty_def radius_def ballBounds_def low_ball_def)

lemma checks_ball0:
  "ball_checks 16 ball0 (prepared\<lparr>balls := bs\<rparr>)
     = Checked NoCollision (pi / 2) [] ball0 (prepared\<lparr>balls := bs\<rparr>)"
  apply (simp add: ball_checks_def paddle_check_def side_check_def ball0_geom prepared_sel
      overlaps_def entity_bounds_def minx_def maxx_def miny_def maxy_def brick_loop.simps hit_walls_def)
  apply (simp add: ball0_def)
  done

lemma checks_low_ball:
  "ball_checks 16 low_ball (prepared\<lparr>balls := bs\<rparr>)
     = BottomLoss low_ball (prepared\<lparr>balls := bs\<rparr>)"
  apply (simp add: ball_checks_def paddle_check_def side_check_def low_ball_geom prepared_sel
      overlaps_def entity_bounds_def minx_def maxx_def miny_def maxy_def brick_loop.simps hit_walls_def)
  apply (simp add: low_ball_def)
  done

lemma paddle_ball_geom:
  "ball_dx 16 paddle_ball = 0" "ball_dy 16 paddle_ball = 3.84"
  "wantx 16 paddle_ball = 240" "wanty 16 paddle_ball = 503.84" "radius paddle_ball = 10"
  "ballBounds 16 paddle_ball = \<lparr>b_x = 230, b_y = 493.84, b_width = 20, b_height = 20\<rparr>"
  "angle paddle_ball = pi / 2" "colliding paddle_ball = False"
  by (simp_all add: ball_dx_def ball_dy_def wantx_def wanty_def radius_def ballBounds_def
      paddle_ball_def)

lemma prepared_paddle:
  "entity_bounds (paddle prepared) = \<lparr>b_x = 210, b_y = 510, b_width = 60, b_height = 20\<rparr>"
  by (simp add: prepared_def entity_bounds_def)

lemma paddle_ball_isect:
  "intersects (ballBounds 16 paddle_ball) (entity_bounds (paddle prepared))
     = Some \<lparr>b_x = 230, b_y = 510, b_width = 20, b_height = 3.84\<rparr>"
  by (simp add: paddle_ball_geom prepared_paddle intersects_def overlaps_def
      minx_def maxx_def miny_def maxy_def)

lemma paddle_ball_hit: "paddle_hit 16 paddle_ball prepared"
  by (simp add: paddle_hit_def paddle_ball_geom prepared_paddle overlaps_def
      minx_def maxx_def miny_def maxy_def)

lemma ball0_misses: "\<not> overlaps (ballBounds 16 ball0) (entity_bounds (paddle prepared))"
  by (simp add: ball0_geom prepared_paddle overlaps_def minx_def maxx_def miny_def maxy_def)

lemma paddle_check_paddle_ball:
  "paddle_check 16 paddle_ball \<lparr>xf_x = 240, xf_y = 520, xf_minx = -30, xf_miny = -10,
                 xf_width = 60, xf_height = 20\<rparr> = (CPaddle, True, - (pi / 2))"
  by (simp add: paddle_check_def entity_bounds_def paddle_ball_geom overlaps_def intersects_def
        minx_def maxx_def miny_def maxy_def midx_def paddle_reflect_def lerp_def Let_def
        trig_3_2 atan2_def)

lemma checks_paddle_ball:
  "ball_checks 16 paddle_ball (prepared\<lparr>balls := bs\<rparr>)
     = Checked CPaddle (- (pi / 2)) [] (paddle_ball\<lparr>colliding := True\<rparr>) (prepared\<lparr>balls := bs\<rparr>)"
  by (simp add: ball_checks_def paddle_check_paddle_ball side_check_def paddle_ball_geom
      prepared_sel brick_loop.simps)

lemma raised_sel:
  "entity_bounds (paddle raised) = \<lparr>b_x = 210, b_y = 310, b_width = 60, b_height = 20\<rparr>"
  "leftEdge raised = 20" "rightEdge raised = 460" "topEdge raised = 16" "bottomEdge raised = 600"
  "bricks raised = []" "walls raised = []"
  by (simp_all add: raised_def prepared_def entity_bounds_def)

lemma checks_ball0_raised:
  "ball_checks 16 ball0 raised = Checked CPaddle (- (pi / 2)) [] (ball0\<lparr>colliding := True\<rparr>) raised"
proof -
  have pc: "paddle_check 16 ball0 (paddle raised) = (CPaddle, True, - (pi / 2))"
    by (simp add: paddle_check_def raised_sel ball0_geom ball0_sel overlaps_def intersects_def
        minx_def maxx_def miny_def maxy_def midx_def paddle_reflect_def lerp_def Let_def
        trig_3_2 atan2_def)
  show ?thesis
    by (simp add: ball_checks_def pc side_check_def ball0_geom raised_sel brick_loop.simps)
qed

lemma tracked_ball0: "tracked ball0"
proof (rule tracked.spawned [of "pi / 2" ball0 240 prepared])
  show "pi * 0.35 \<le> pi / 2" by simp
  show "pi / 2 \<le> pi * 0.65" by simp
  show "ball0 = last (balls (spawnBall 240 (pi / 2) prepared))"
    by (simp add: spawnBall_def Let_def prepared_def ball0_def js_round_def
        ballRadiusPct_def ballSpawnBufferPct_def ballSpawnYPct_def ballSpeed_def)
qed










lemma leaving_ball_geom:
  "ball_dx 16 leaving_ball = 0" "ball_dy 16 leaving_ball = 3.84" "wantx 16 leaving_ball = 240"
  "wanty 16 leaving_ball = 303.84" "radius leaving_ball = 10"
  "ballBounds 16 leaving_ball = \<lparr>b_x = 230, b_y = 293.84, b_width = 20, b_height = 20\<rparr>"
  by (simp_all add: ball_dx_def ball_dy_def wantx_def wanty_def radius_def ballBounds_def
      ball0_def leaving_ball_def)

lemma leaving_ball_misses:
  "\<not> overlaps (ballBounds 16 leaving_ball) (entity_bounds (paddle (prepared\<lparr>balls := bs\<rparr>)))"
  by (simp add: leaving_ball_geom prepared_sel overlaps_def entity_bounds_def
      minx_def maxx_def miny_def maxy_def)

lemma checks_leaving_ball:
  "ball_checks 16 leaving_ball (prepared\<lparr>balls := bs\<rparr>)
     = Checked NoCollision (pi / 2) [] ball0 (prepared\<lparr>balls := bs\<rparr>)"
  apply (simp add: ball_checks_def paddle_check_def side_check_def leaving_ball_geom prepared_sel
      overlaps_def entity_bounds_def minx_def maxx_def miny_def maxy_def brick_loop.simps hit_walls_def)
  apply (simp add: ball0_def leaving_ball_def)
  done

lemma paddle_ball_hit_single: "paddle_hit 16 paddle_ball (prepared\<lparr>balls := bs\<rparr>)"
  using paddle_ball_hit by (simp add: paddle_hit_def prepared_def)

subsection \<open>The state after a pass\<close>

lemma hit_brick_state:
  "(balls (hit_brick i s) = balls s \<and> timers (hit_brick i s) = timers s) \<or>
   (balls (hit_brick i s) = [] \<and> bricks (hit_brick i s) = [] \<and>
      (timers (hit_brick i s) = timers s \<or> timers (hit_brick i s) = timers s @ [NextLevel 0]))"
  by (auto simp: hit_brick_def Brick_hit_def onBrickDestroyed_def handleLevelComplete_def
      incrementScore_def Let_def split: option.splits)

lemma brick_loop_state:
  "brick_loop bb a i (c, w, f, s) = (c', w', f', s') \<Longrightarrow>
     (f' = f \<longrightarrow> s' = s) \<and>
     ((balls s' = balls s \<and> timers s' = timers s) \<or>
      (balls s' = [] \<and> bricks s' = [] \<and>
         (timers s' = timers s \<or> timers s' = timers s @ [NextLevel 0])))"
proof (induction bb a i "(c, w, f, s)" arbitrary: c w f s rule: brick_loop.induct)
  case (1 bb a i c w f s)
  show ?case
  proof (cases "i < length (bricks s)")
    case False
    with "1.prems" show ?thesis by (simp add: brick_loop.simps)
  next
    case True
    show ?thesis
    proof (cases "intersects bb (entity_bounds (brick_xform (bricks s ! i)))")
      case None
      with True "1.prems" have "brick_loop bb a (i + 1) (c, w, f, s) = (c', w', f', s')"
        by (simp add: brick_loop.simps)
      from "1.hyps"(1) [OF True None this] show ?thesis .
    next
      case (Some isect)
      let ?w = "if b_width isect \<ge> b_height isect then pi * 2 - a else pi - a"
      let ?h = "hit_brick i s"
      from True Some "1.prems"
      have run: "brick_loop bb a (i + 1) (CBrick, ?w, f @ [isect], ?h) = (c', w', f', s')"
        by (simp add: brick_loop.simps)
      from brick_loop_found [OF run] obtain g where "f' = (f @ [isect]) @ g" by blast
      then have grow: "f' \<noteq> f" by simp
      note rest = "1.hyps"(2) [OF True Some run]
      have "(balls s' = balls s \<and> timers s' = timers s) \<or>
        (balls s' = [] \<and> bricks s' = [] \<and>
           (timers s' = timers s \<or> timers s' = timers s @ [NextLevel 0]))"
      proof (cases "balls ?h = balls s \<and> timers ?h = timers s")
        case True
        with rest show ?thesis by auto
      next
        case False
        with hit_brick_state [of i s]
        have fin: "balls ?h = []" "bricks ?h = []"
          "timers ?h = timers s \<or> timers ?h = timers s @ [NextLevel 0]"
          by auto
        from run fin(2) have "s' = ?h" by (simp add: brick_loop.simps)
        with fin show ?thesis by simp
      qed
      with grow show ?thesis by simp
    qed
  qed
qed

lemma ball_checks_state:
  assumes "ball_checks elapsed b s = Checked c w f b1 s1"
  shows "f = [] \<longrightarrow> (\<exists>ws. s1 = s\<lparr>walls := ws\<rparr>)"
    and "(balls s1 = balls s \<and> timers s1 = timers s) \<or>
         (balls s1 = [] \<and> bricks s1 = [] \<and>
            (timers s1 = timers s \<or> timers s1 = timers s @ [NextLevel 0]))"
proof -
  obtain c0 col0 w0 where pc: "paddle_check elapsed b (paddle s) = (c0, col0, w0)"
    by (metis prod_cases3)
  obtain c1 w1 s1' where sc: "side_check elapsed b (c0, w0, s) = (c1, w1, s1')"
    by (metis prod_cases3)
  obtain ws where ws: "s1' = s\<lparr>walls := ws\<rparr>"
    using side_check_walls [of elapsed b c0 w0 s] by (auto simp: sc)
  note fr = side_check_frame [OF sc]
  let ?top = "s1'\<lparr>walls := hit_walls (ballBounds elapsed b) (walls s1')\<rparr>"
  have "\<exists>c2 w2 s2. (\<exists>ws. s2 = s\<lparr>walls := ws\<rparr>) \<and>
      brick_loop (ballBounds elapsed b) (angle b) 0 (c2, w2, [], s2) = (c, w, f, s1)"
  proof (cases "at_top elapsed b s")
    case True
    then have "brick_loop (ballBounds elapsed b) (angle b) 0 (CTop, pi * 2 - angle b, [], ?top)
        = (c, w, f, s1)"
      using assms fr
      by (auto simp: ball_checks_def pc sc at_top_def split: if_splits prod.splits)
    moreover have "?top = s\<lparr>walls := hit_walls (ballBounds elapsed b) (walls s1')\<rparr>"
      unfolding ws by simp
    then have "\<exists>ws. ?top = s\<lparr>walls := ws\<rparr>" by (rule exI)
    ultimately show ?thesis by blast
  next
    case False
    then have "brick_loop (ballBounds elapsed b) (angle b) 0 (c1, w1, [], s1') = (c, w, f, s1)"
      using assms fr
      by (auto simp: ball_checks_def pc sc at_top_def split: if_splits prod.splits)
    with ws show ?thesis by blast
  qed
  then obtain c2 w2 s2 ws2 where s2: "s2 = s\<lparr>walls := ws2\<rparr>"
    and loop: "brick_loop (ballBounds elapsed b) (angle b) 0 (c2, w2, [], s2) = (c, w, f, s1)"
    by blast
  note st = brick_loop_state [OF loop]
  show "f = [] \<longrightarrow> (\<exists>ws. s1 = s\<lparr>walls := ws\<rparr>)"
    using st s2 by auto
  show "(balls s1 = balls s \<and> timers s1 = timers s) \<or>
         (balls s1 = [] \<and> bricks s1 = [] \<and>
            (timers s1 = timers s \<or> timers s1 = timers s @ [NextLevel 0]))"
    using st s2 by simp
qed

lemma store_ball_nth:
  assumes "i < length (balls s)" and "ball_oid (balls s ! i) = ball_oid b'"
    and "distinct (map ball_oid (balls s))"
  shows "balls (store_ball b' s) = (balls s)[i := b']"
proof (rule nth_equalityI)
  show "length (balls (store_ball b' s)) = length ((balls s)[i := b'])"
    by (simp add: store_ball_def)
next
  fix j
  assume "j < length (balls (store_ball b' s))"
  then have j: "j < length (balls s)" by (simp add: store_ball_def)
  show "balls (store_ball b' s) ! j = (balls s)[i := b'] ! j"
  proof (cases "j = i")
    case True
    with assms j show ?thesis by (simp add: store_ball_def)
  next
    case False
    have "map ball_oid (balls s) ! j \<noteq> map ball_oid (balls s) ! i"
      using nth_eq_iff_index_eq [OF assms(3), of j i] assms(1) j False by simp
    then have "ball_oid (balls s ! j) \<noteq> ball_oid b'"
      using assms(1,2) j by simp
    with False j show ?thesis by (simp add: store_ball_def)
  qed
qed


lemma onBallTick_single:
  "balls s = [b] \<Longrightarrow> onBallTick elapsed s = pass_state (ball_tick elapsed b s)"
  by (cases "ball_tick elapsed b s") (simp_all add: onBallTick_def)


lemma pass_stored:
  assumes ch: "ball_checks elapsed b s = Checked c w f b1 s1"
    and keep: "f = [] \<or> bricks s1 \<noteq> []"
  shows "balls s1 = balls s"
proof (cases "f = []")
  case True
  with ball_checks_state(1) [OF ch] show ?thesis by auto
next
  case False
  with keep ball_checks_state(2) [OF ch] show ?thesis by auto
qed

lemma pass_Done:
  assumes ch: "ball_checks elapsed b s = Checked c w f b1 s1"
  obtains b' where
    "ball_tick elapsed b s = Done b' (store_ball b' s1)"
    "b' = (if c \<noteq> NoCollision
           then b\<lparr>colliding := fst (snd (paddle_check elapsed b (paddle s))), angle := sanitize w\<rparr>
           else b\<lparr>colliding := fst (snd (paddle_check elapsed b (paddle s))),
                  ball_xform := (ball_xform b)
                    \<lparr>xf_x := xf_x (ball_xform b) + cos (angle b) * speed b * elapsed,
                     xf_y := xf_y (ball_xform b) + sin (angle b) * speed b * elapsed\<rparr>\<rparr>)"
    "f = [] \<or> bricks s1 \<noteq> [] \<Longrightarrow> i < length (balls s) \<Longrightarrow> balls s ! i = b \<Longrightarrow>
       distinct (map ball_oid (balls s)) \<Longrightarrow> balls (store_ball b' s1) = (balls s)[i := b']"
    "balls s = [b] \<Longrightarrow> onBallTick elapsed s = store_ball b' s1"
    "f = [] \<or> bricks s1 \<noteq> [] \<Longrightarrow> balls s = [b] \<Longrightarrow> balls (onBallTick elapsed s) = [b']"
proof -
  let ?b' = "if c \<noteq> NoCollision
           then b\<lparr>colliding := fst (snd (paddle_check elapsed b (paddle s))), angle := sanitize w\<rparr>
           else b\<lparr>colliding := fst (snd (paddle_check elapsed b (paddle s))),
                  ball_xform := (ball_xform b)
                    \<lparr>xf_x := xf_x (ball_xform b) + cos (angle b) * speed b * elapsed,
                     xf_y := xf_y (ball_xform b) + sin (angle b) * speed b * elapsed\<rparr>\<rparr>"
  note b1 = ball_checks_Checked(1) [OF ch]
  have t: "ball_tick elapsed b s = Done ?b' (store_ball ?b' s1)"
    unfolding ball_tick_Checked [OF ch] b1
    by (simp add: Let_def ball_dx_def ball_dy_def)
  have oid: "ball_oid ?b' = ball_oid b" by simp
  have arr: "balls (store_ball ?b' s1) = (balls s)[j := ?b']"
    if keep: "f = [] \<or> bricks s1 \<noteq> []" and j: "j < length (balls s)" and at: "balls s ! j = b"
      and d: "distinct (map ball_oid (balls s))" for j
  proof -
    have same: "balls s1 = balls s" by (rule pass_stored [OF ch keep])
    show ?thesis
      using store_ball_nth [of j s1 ?b'] j at d unfolding same oid by simp
  qed
  have one: "onBallTick elapsed s = store_ball ?b' s1" if "balls s = [b]"
    using onBallTick_single [OF that, of elapsed] by (simp add: t)
  have one': "balls (onBallTick elapsed s) = [?b']"
    if keep: "f = [] \<or> bricks s1 \<noteq> []" and single: "balls s = [b]"
    using arr [OF keep, of 0] single unfolding one [OF single] by simp
  show thesis
    by (rule that [of ?b']) (rule t refl arr one one'; assumption)+
qed

subsection \<open>The bricks of a spawned level\<close>

lemma level_spawnBrick: "level (spawnBrick col row h s) = level s"
  by (simp add: spawnBrick_def Let_def)

lemma level_spawn_cell: "level (spawn_cell g i j s) = level s"
  by (simp add: spawn_cell_def level_spawnBrick split: option.split)

lemma level_spawn_column: "level (spawn_column g i s) = level s"
proof -
  have "level (fold (spawn_cell g i) js s) = level s" for js
    by (induction js arbitrary: s) (simp_all add: level_spawn_cell)
  then show ?thesis by (simp add: spawn_column_def)
qed

lemma level_spawn_columns: "level (fold (spawn_column g) cols s) = level s"
  by (induction cols arbitrary: s) (simp_all add: level_spawn_column)

lemma hits_spawnBrick: "map hits (bricks (spawnBrick col row h s)) = map hits (bricks s) @ [h]"
  by (simp add: spawnBrick_def Let_def)

lemma hits_spawn_cell:
  "map hits (bricks (spawn_cell g i j s)) = map hits (bricks s) @ cell_hits g i j"
  by (simp add: spawn_cell_def cell_hits_def hits_spawnBrick split: option.split)

lemma hits_spawn_cells:
  "map hits (bricks (fold (spawn_cell g i) js s))
     = map hits (bricks s) @ concat (map (cell_hits g i) js)"
  by (induction js arbitrary: s) (simp_all add: hits_spawn_cell)

lemma hits_spawn_columns:
  "map hits (bricks (fold (spawn_column g) cols s))
     = map hits (bricks s) @ concat (map (\<lambda>i. concat (map (cell_hits g i) [0..<maxRows])) cols)"
  by (induction cols arbitrary: s) (simp_all add: spawn_column_def hits_spawn_cells)

lemma spawnBrick_frame2:
  "started (spawnBrick col row h s) = started s" "score (spawnBrick col row h s) = score s"
  by (simp_all add: spawnBrick_def Let_def)

lemma spawn_cell_frame2:
  "started (spawn_cell g i j s) = started s" "score (spawn_cell g i j s) = score s"
  by (simp_all add: spawn_cell_def spawnBrick_frame2 split: option.split)

lemma spawn_column_frame2:
  "started (spawn_column g i s) = started s \<and> score (spawn_column g i s) = score s"
proof -
  have "started (fold (spawn_cell g i) js s) = started s \<and> score (fold (spawn_cell g i) js s) = score s"
    for js
    by (induction js arbitrary: s) (simp_all add: spawn_cell_frame2)
  then show ?thesis by (simp add: spawn_column_def)
qed

lemma spawn_columns_frame2:
  "started (fold (spawn_column g) cols s) = started s \<and>
   score (fold (spawn_column g) cols s) = score s"
  by (induction cols arbitrary: s) (simp_all add: spawn_column_frame2)

lemma spawnLevel_frame2:
  "spawnLevel idx p = Inr s \<Longrightarrow> started s = started p \<and> score s = score p"
  by (auto simp: spawnLevel_def Let_def spawn_columns_frame2 split: if_splits)

lemma spawnBrick_frame:
  "balls (spawnBrick col row h s) = balls s" "timers (spawnBrick col row h s) = timers s"
  by (simp_all add: spawnBrick_def Let_def)

lemma spawn_cell_frame:
  "balls (spawn_cell g i j s) = balls s" "timers (spawn_cell g i j s) = timers s"
  by (simp_all add: spawn_cell_def spawnBrick_frame split: option.split)

lemma spawn_column_frame:
  "balls (spawn_column g i s) = balls s \<and> timers (spawn_column g i s) = timers s"
proof -
  have "balls (fold (spawn_cell g i) js s) = balls s \<and> timers (fold (spawn_cell g i) js s) = timers s"
    for js
    by (induction js arbitrary: s) (simp_all add: spawn_cell_frame)
  then show ?thesis by (simp add: spawn_column_def)
qed

lemma spawn_columns_frame:
  "balls (fold (spawn_column g) cols s) = balls s \<and>
   timers (fold (spawn_column g) cols s) = timers s"
  by (induction cols arbitrary: s) (simp_all add: spawn_column_frame)

lemma spawnLevel_frame:
  "spawnLevel idx p = Inr s \<Longrightarrow> balls s = balls p \<and> timers s = timers p"
  by (auto simp: spawnLevel_def Let_def spawn_columns_frame split: if_splits)

lemma spawnLevel_hits:
  "idx < length (levels p) \<Longrightarrow>
   \<exists>s. spawnLevel idx p = Inr s \<and> level s = idx \<and>
       map hits (bricks s)
         = map hits (bricks p)
           @ concat (map (\<lambda>i. concat (map (cell_hits (levels p ! idx) i) [0..<maxRows]))
                       [0..<maxCols])"
  by (simp add: spawnLevel_def Let_def hits_spawn_columns level_spawn_columns)

subsection \<open>The balls and the timers of a game\<close>




lemma fire_NextLevel_last:
  "timers s' = ts @ [NextLevel d] \<Longrightarrow>
   fire (length ts) rx rangle s' = fire_next_level (s'\<lparr>timers := ts\<rparr>)"
  by (simp add: fire_def splice1_def)




subsection \<open>The paddle check\<close>

text \<open>
  C1. In a pass of onBallTick for a ball whose candidate bounds overlap the bounds of the
  paddle while its \<open>colliding\<close> flag is false, the paddle check sets \<open>colliding\<close> to true
  and takes the intersection rectangle. If the intersection is at least as wide as high,
  \<open>wantAngle\<close> becomes atan2 of the displacement (dx, dy) reflected about the unit vector
  (cos t, sin t), \<open>v - 2 (v . n) n\<close>, where t maps the horizontal midpoint of the
  intersection linearly from the paddle's minx..maxx to 1.3 pi..1.7 pi (and lies in that
  range when the paddle has a width); otherwise \<open>wantAngle\<close> becomes \<open>pi - angle\<close>. When the
  candidate bounds do not overlap the paddle, the check sets \<open>colliding\<close> to false and
  leaves \<open>wantAngle\<close> at the angle of the ball. The flag that the check sets is the flag of
  the ball in \<open>this.balls\<close> after the pass: when the pass has run all its checks and has not
  completed the level (which empties \<open>this.balls\<close>), the array is the one before the pass
  with the updated ball at the place \<open>i\<close> of the ball, and the flag of that entry is true
  exactly when the candidate bounds overlap the paddle; for the one ball of a game, the same
  holds of \<open>this.balls\<close> after the tick.
\<close>

theorem paddle_collision_response:
  "(paddle_hit elapsed b s \<longrightarrow>
      (\<exists>isect t.
         intersects (ballBounds elapsed b) (entity_bounds (paddle s)) = Some isect \<and>
         t = pi * 1.3 + (midx isect - minx (entity_bounds (paddle s))) * (pi * 1.7 - pi * 1.3)
               / (maxx (entity_bounds (paddle s)) - minx (entity_bounds (paddle s))) \<and>
         (0 < xf_width (paddle s) \<longrightarrow> pi * 1.3 \<le> t \<and> t \<le> pi * 1.7) \<and>
         paddle_check elapsed b (paddle s) =
           (CPaddle, True,
            if b_width isect \<ge> b_height isect
            then atan2
                   (ball_dy elapsed b
                      - 2 * (cos t * ball_dx elapsed b + sin t * ball_dy elapsed b) * sin t)
                   (ball_dx elapsed b
                      - 2 * (cos t * ball_dx elapsed b + sin t * ball_dy elapsed b) * cos t)
            else pi - angle b))) \<and>
   (\<not> overlaps (ballBounds elapsed b) (entity_bounds (paddle s)) \<longrightarrow>
      paddle_check elapsed b (paddle s) = (NoCollision, False, angle b)) \<and>
   colliding (pass_ball (ball_tick elapsed b s)) = fst (snd (paddle_check elapsed b (paddle s))) \<and>
   (ball_checks elapsed b s = Checked c w f b1 s1 \<and> (f = [] \<or> bricks s1 \<noteq> []) \<longrightarrow>
      (\<exists>b' s'. ball_tick elapsed b s = Done b' s' \<and>
         (i < length (balls s) \<and> balls s ! i = b \<and> distinct (map ball_oid (balls s)) \<longrightarrow>
            balls s' = (balls s)[i := b'] \<and>
            colliding (balls s' ! i) = overlaps (ballBounds elapsed b) (entity_bounds (paddle s))) \<and>
         (balls s = [b] \<longrightarrow>
            balls (onBallTick elapsed s) = [b'] \<and>
            map colliding (balls (onBallTick elapsed s))
              = [overlaps (ballBounds elapsed b) (entity_bounds (paddle s))])))"
proof (intro conjI impI)
  assume h: "paddle_hit elapsed b s"
  let ?pb = "entity_bounds (paddle s)"
  obtain isect where i: "intersects (ballBounds elapsed b) ?pb = Some isect"
    using h overlaps_intersects unfolding paddle_hit_def by blast
  define t where "t = pi * 1.3 + (midx isect - minx ?pb) * (pi * 1.7 - pi * 1.3) / (maxx ?pb - minx ?pb)"
  have range: "pi * 1.3 \<le> t \<and> t \<le> pi * 1.7" if "0 < xf_width (paddle s)"
  proof -
    have "minx ?pb < maxx ?pb"
      using that by (simp add: minx_def maxx_def entity_bounds_def)
    with midx_intersects [OF i] show ?thesis
      unfolding t_def by (intro tilt_range) simp_all
  qed
  have pc: "paddle_check elapsed b (paddle s) =
           (CPaddle, True,
            if b_width isect \<ge> b_height isect
            then atan2
                   (ball_dy elapsed b
                      - 2 * (cos t * ball_dx elapsed b + sin t * ball_dy elapsed b) * sin t)
                   (ball_dx elapsed b
                      - 2 * (cos t * ball_dx elapsed b + sin t * ball_dy elapsed b) * cos t)
            else pi - angle b)"
    using h i
    by (simp add: paddle_check_def paddle_hit_def paddle_reflect_def lerp_def Let_def t_def)
  show "\<exists>isect t.
         intersects (ballBounds elapsed b) (entity_bounds (paddle s)) = Some isect \<and>
         t = pi * 1.3 + (midx isect - minx (entity_bounds (paddle s))) * (pi * 1.7 - pi * 1.3)
               / (maxx (entity_bounds (paddle s)) - minx (entity_bounds (paddle s))) \<and>
         (0 < xf_width (paddle s) \<longrightarrow> pi * 1.3 \<le> t \<and> t \<le> pi * 1.7) \<and>
         paddle_check elapsed b (paddle s) =
           (CPaddle, True,
            if b_width isect \<ge> b_height isect
            then atan2
                   (ball_dy elapsed b
                      - 2 * (cos t * ball_dx elapsed b + sin t * ball_dy elapsed b) * sin t)
                   (ball_dx elapsed b
                      - 2 * (cos t * ball_dx elapsed b + sin t * ball_dy elapsed b) * cos t)
            else pi - angle b)"
    using i t_def range pc by blast
next
  assume "\<not> overlaps (ballBounds elapsed b) (entity_bounds (paddle s))"
  then show "paddle_check elapsed b (paddle s) = (NoCollision, False, angle b)"
    by (simp add: paddle_check_def)
next
  show "colliding (pass_ball (ball_tick elapsed b s)) = fst (snd (paddle_check elapsed b (paddle s)))"
    by (rule colliding_pass_ball)
next
  assume a: "ball_checks elapsed b s = Checked c w f b1 s1 \<and> (f = [] \<or> bricks s1 \<noteq> [])"
  then have ch: "ball_checks elapsed b s = Checked c w f b1 s1"
    and keep: "f = [] \<or> bricks s1 \<noteq> []" by simp_all
  have flag: "fst (snd (paddle_check elapsed b (paddle s)))
      = overlaps (ballBounds elapsed b) (entity_bounds (paddle s))"
    by (simp add: paddle_check_def)
  from pass_Done [OF ch, of i] obtain b' where
    t: "ball_tick elapsed b s = Done b' (store_ball b' s1)"
    and b': "b' = (if c \<noteq> NoCollision
           then b\<lparr>colliding := fst (snd (paddle_check elapsed b (paddle s))), angle := sanitize w\<rparr>
           else b\<lparr>colliding := fst (snd (paddle_check elapsed b (paddle s))),
                  ball_xform := (ball_xform b)
                    \<lparr>xf_x := xf_x (ball_xform b) + cos (angle b) * speed b * elapsed,
                     xf_y := xf_y (ball_xform b) + sin (angle b) * speed b * elapsed\<rparr>\<rparr>)"
    and arr: "f = [] \<or> bricks s1 \<noteq> [] \<Longrightarrow> i < length (balls s) \<Longrightarrow> balls s ! i = b \<Longrightarrow>
       distinct (map ball_oid (balls s)) \<Longrightarrow> balls (store_ball b' s1) = (balls s)[i := b']"
    and one: "f = [] \<or> bricks s1 \<noteq> [] \<Longrightarrow> balls s = [b] \<Longrightarrow> balls (onBallTick elapsed s) = [b']"
    by blast
  have fl: "colliding b' = overlaps (ballBounds elapsed b) (entity_bounds (paddle s))"
    unfolding b' flag [symmetric] by simp
  show "\<exists>b' s'. ball_tick elapsed b s = Done b' s' \<and>
         (i < length (balls s) \<and> balls s ! i = b \<and> distinct (map ball_oid (balls s)) \<longrightarrow>
            balls s' = (balls s)[i := b'] \<and>
            colliding (balls s' ! i) = overlaps (ballBounds elapsed b) (entity_bounds (paddle s))) \<and>
         (balls s = [b] \<longrightarrow>
            balls (onBallTick elapsed s) = [b'] \<and>
            map colliding (balls (onBallTick elapsed s))
              = [overlaps (ballBounds elapsed b) (entity_bounds (paddle s))])"
  proof (intro exI [of _ b'] exI [of _ "store_ball b' s1"] conjI impI)
    show "ball_tick elapsed b s = Done b' (store_ball b' s1)" by (rule t)
  next
    assume h: "i < length (balls s) \<and> balls s ! i = b \<and> distinct (map ball_oid (balls s))"
    then show u: "balls (store_ball b' s1) = (balls s)[i := b']"
      using arr [OF keep] by blast
    show "colliding (balls (store_ball b' s1) ! i)
        = overlaps (ballBounds elapsed b) (entity_bounds (paddle s))"
      unfolding u using h by (simp add: fl)
  next
    assume single: "balls s = [b]"
    show "balls (onBallTick elapsed s) = [b']" by (rule one [OF keep single])
    then show "map colliding (balls (onBallTick elapsed s))
              = [overlaps (ballBounds elapsed b) (entity_bounds (paddle s))]"
      by (simp add: fl)
  qed
qed

theorem paddle_collision_response_witness:
  "0 < xf_width (paddle (prepared\<lparr>balls := [paddle_ball]\<rparr>)) \<and>
   \<not> colliding paddle_ball \<and>
   paddle_check 16 paddle_ball (paddle (prepared\<lparr>balls := [paddle_ball]\<rparr>))
     = (CPaddle, True, - (pi / 2)) \<and>
   map colliding (balls (onBallTick 16 (prepared\<lparr>balls := [paddle_ball]\<rparr>))) = [True] \<and>
   colliding leaving_ball \<and>
   paddle_check 16 leaving_ball (paddle (prepared\<lparr>balls := [leaving_ball]\<rparr>))
     = (NoCollision, False, pi / 2) \<and>
   map colliding (balls (onBallTick 16 (prepared\<lparr>balls := [leaving_ball]\<rparr>))) = [False]"
proof -
  let ?s = "prepared\<lparr>balls := [paddle_ball]\<rparr>"
  let ?u = "prepared\<lparr>balls := [leaving_ball]\<rparr>"
  note th = paddle_collision_response [of 16 paddle_ball ?s
      CPaddle "- (pi / 2)" "[]" "paddle_ball\<lparr>colliding := True\<rparr>" ?s 0]
  have pad: "paddle ?s = paddle prepared" "paddle ?u = paddle prepared"
    by (simp_all add: prepared_def)
  from th [THEN conjunct1, THEN mp, OF paddle_ball_hit_single]
  have pc: "paddle_check 16 paddle_ball (paddle ?s) = (CPaddle, True, - (pi / 2))"
    unfolding pad paddle_ball_isect
    by (auto simp: paddle_ball_geom prepared_paddle midx_def minx_def maxx_def
        trig_3_2 atan2_def)
  have ch: "ball_checks 16 paddle_ball ?s
      = Checked CPaddle (- (pi / 2)) [] (paddle_ball\<lparr>colliding := True\<rparr>) ?s \<and>
      ([] = ([]::bounds list) \<or> bricks ?s \<noteq> [])"
    by (simp add: checks_paddle_ball)
  have single: "balls ?s = [paddle_ball]" by (simp add: prepared_def)
  from th [THEN conjunct2, THEN conjunct2, THEN conjunct2, THEN mp, OF ch] single
  have fl: "map colliding (balls (onBallTick 16 ?s)) = [True]"
    using paddle_ball_hit_single [of "[paddle_ball]"] by (auto simp: paddle_hit_def)
  note th0 = paddle_collision_response [of 16 leaving_ball ?u
      NoCollision "pi / 2" "[]" ball0 ?u 0]
  have pc0: "paddle_check 16 leaving_ball (paddle ?u) = (NoCollision, False, pi / 2)"
    using th0 [THEN conjunct2, THEN conjunct1, THEN mp, OF leaving_ball_misses]
    by (simp add: ball0_def leaving_ball_def)
  have ch0: "ball_checks 16 leaving_ball ?u = Checked NoCollision (pi / 2) [] ball0 ?u \<and>
      ([] = ([]::bounds list) \<or> bricks ?u \<noteq> [])"
    by (simp add: checks_leaving_ball)
  have single0: "balls ?u = [leaving_ball]" by (simp add: prepared_def)
  note nohit = leaving_ball_misses [of "[leaving_ball]"]
  from th0 [THEN conjunct2, THEN conjunct2, THEN conjunct2, THEN mp, OF ch0] single0 nohit
  have fl0: "map colliding (balls (onBallTick 16 ?u)) = [False]"
    by auto
  have w: "0 < xf_width (paddle ?s)" "\<not> colliding paddle_ball" "colliding leaving_ball"
    by (simp_all add: prepared_def paddle_ball_def leaving_ball_def)
  show ?thesis using w pc fl pc0 fl0 by simp
qed

subsection \<open>The resolution\<close>

text \<open>
  C2. A pass in which all checks ran detected a collision exactly when the paddle check,
  the left or right check, the top check or some brick matched. If it did, the pass leaves
  the transform of the ball (its position) as it was and sets its angle to the sanitized
  \<open>wantAngle\<close>; if it did not, the pass adds dx to x and dy to y and leaves the angle as it
  was. Speed and identity never change (the \<open>colliding\<close> flag is the paddle check's, see
  C1). The ball in \<open>this.balls\<close> is this updated ball: unless the pass has completed the
  level (which empties \<open>this.balls\<close>), the array after the pass is the array before it
  with the updated ball at the place \<open>i\<close> of the ball, and when the ball is the only one,
  the state after the tick is the state after the pass and \<open>this.balls\<close> holds exactly the
  updated ball. A pass that ends in the bottom check hands the ball to lostBall with
  position and angle untouched, and the tick of a single ball ends in the state that
  lostBall leaves.
\<close>

theorem collision_tick_frame:
  "(ball_checks elapsed b s = Checked c w f b1 s1 \<longrightarrow>
      (c \<noteq> NoCollision \<longleftrightarrow>
         paddle_hit elapsed b s \<or> at_left elapsed b s \<or> at_right elapsed b s \<or>
         at_top elapsed b s \<or> f \<noteq> []) \<and>
      (\<exists>b'. ball_tick elapsed b s = Done b' (store_ball b' s1) \<and>
         (if c \<noteq> NoCollision
          then ball_xform b' = ball_xform b \<and> angle b' = sanitize w
          else ball_xform b' = (ball_xform b)
                 \<lparr>xf_x := xf_x (ball_xform b) + cos (angle b) * speed b * elapsed,
                  xf_y := xf_y (ball_xform b) + sin (angle b) * speed b * elapsed\<rparr> \<and>
               angle b' = angle b) \<and>
         speed b' = speed b \<and> ball_oid b' = ball_oid b \<and>
         (i < length (balls s) \<and> balls s ! i = b \<and> distinct (map ball_oid (balls s)) \<and>
          (f = [] \<or> bricks s1 \<noteq> []) \<longrightarrow>
            balls (store_ball b' s1) = (balls s)[i := b']) \<and>
         (balls s = [b] \<longrightarrow> onBallTick elapsed s = store_ball b' s1) \<and>
         (balls s = [b] \<and> (f = [] \<or> bricks s1 \<noteq> []) \<longrightarrow>
            balls (onBallTick elapsed s) = [b']))) \<and>
   (ball_checks elapsed b s = BottomLoss b1 s1 \<longrightarrow>
      ball_tick elapsed b s = Lost b1 (lostBall b1 s1) \<and>
      ball_xform b1 = ball_xform b \<and> angle b1 = angle b \<and>
      (balls s = [b] \<longrightarrow> onBallTick elapsed s = lostBall b1 s1))"
proof (intro conjI impI)
  assume ch: "ball_checks elapsed b s = Checked c w f b1 s1"
  note facts = ball_checks_Checked [OF ch]
  show "c \<noteq> NoCollision \<longleftrightarrow>
         paddle_hit elapsed b s \<or> at_left elapsed b s \<or> at_right elapsed b s \<or>
         at_top elapsed b s \<or> f \<noteq> []"
    unfolding facts(4) by (simp add: paddle_check_fst)
  from pass_Done [OF ch, of i] obtain b' where
    t: "ball_tick elapsed b s = Done b' (store_ball b' s1)"
    and b': "b' = (if c \<noteq> NoCollision
           then b\<lparr>colliding := fst (snd (paddle_check elapsed b (paddle s))), angle := sanitize w\<rparr>
           else b\<lparr>colliding := fst (snd (paddle_check elapsed b (paddle s))),
                  ball_xform := (ball_xform b)
                    \<lparr>xf_x := xf_x (ball_xform b) + cos (angle b) * speed b * elapsed,
                     xf_y := xf_y (ball_xform b) + sin (angle b) * speed b * elapsed\<rparr>\<rparr>)"
    and arr: "f = [] \<or> bricks s1 \<noteq> [] \<Longrightarrow> i < length (balls s) \<Longrightarrow> balls s ! i = b \<Longrightarrow>
       distinct (map ball_oid (balls s)) \<Longrightarrow> balls (store_ball b' s1) = (balls s)[i := b']"
    and tick: "balls s = [b] \<Longrightarrow> onBallTick elapsed s = store_ball b' s1"
    and one: "f = [] \<or> bricks s1 \<noteq> [] \<Longrightarrow> balls s = [b] \<Longrightarrow> balls (onBallTick elapsed s) = [b']"
    by blast
  have res: "if c \<noteq> NoCollision
          then ball_xform b' = ball_xform b \<and> angle b' = sanitize w
          else ball_xform b' = (ball_xform b)
                 \<lparr>xf_x := xf_x (ball_xform b) + cos (angle b) * speed b * elapsed,
                  xf_y := xf_y (ball_xform b) + sin (angle b) * speed b * elapsed\<rparr> \<and>
               angle b' = angle b"
    and same: "speed b' = speed b" "ball_oid b' = ball_oid b"
    unfolding b' by simp_all
  show "\<exists>b'. ball_tick elapsed b s = Done b' (store_ball b' s1) \<and>
         (if c \<noteq> NoCollision
          then ball_xform b' = ball_xform b \<and> angle b' = sanitize w
          else ball_xform b' = (ball_xform b)
                 \<lparr>xf_x := xf_x (ball_xform b) + cos (angle b) * speed b * elapsed,
                  xf_y := xf_y (ball_xform b) + sin (angle b) * speed b * elapsed\<rparr> \<and>
               angle b' = angle b) \<and>
         speed b' = speed b \<and> ball_oid b' = ball_oid b \<and>
         (i < length (balls s) \<and> balls s ! i = b \<and> distinct (map ball_oid (balls s)) \<and>
          (f = [] \<or> bricks s1 \<noteq> []) \<longrightarrow>
            balls (store_ball b' s1) = (balls s)[i := b']) \<and>
         (balls s = [b] \<longrightarrow> onBallTick elapsed s = store_ball b' s1) \<and>
         (balls s = [b] \<and> (f = [] \<or> bricks s1 \<noteq> []) \<longrightarrow>
            balls (onBallTick elapsed s) = [b'])"
  proof (intro exI [of _ b'] conjI impI)
    show "ball_tick elapsed b s = Done b' (store_ball b' s1)" by (rule t)
    show "if c \<noteq> NoCollision
          then ball_xform b' = ball_xform b \<and> angle b' = sanitize w
          else ball_xform b' = (ball_xform b)
                 \<lparr>xf_x := xf_x (ball_xform b) + cos (angle b) * speed b * elapsed,
                  xf_y := xf_y (ball_xform b) + sin (angle b) * speed b * elapsed\<rparr> \<and>
               angle b' = angle b" by (rule res)
    show "speed b' = speed b" "ball_oid b' = ball_oid b" by (rule same)+
  next
    assume "i < length (balls s) \<and> balls s ! i = b \<and> distinct (map ball_oid (balls s)) \<and>
          (f = [] \<or> bricks s1 \<noteq> [])"
    then show "balls (store_ball b' s1) = (balls s)[i := b']" using arr by blast
  next
    assume "balls s = [b]"
    then show "onBallTick elapsed s = store_ball b' s1" by (rule tick)
  next
    assume "balls s = [b] \<and> (f = [] \<or> bricks s1 \<noteq> [])"
    then show "balls (onBallTick elapsed s) = [b']" using one by blast
  qed
next
  assume bl: "ball_checks elapsed b s = BottomLoss b1 s1"
  show t: "ball_tick elapsed b s = Lost b1 (lostBall b1 s1)"
    by (simp add: ball_tick_def bl)
  show "ball_xform b1 = ball_xform b" "angle b1 = angle b"
    unfolding ball_checks_BottomLoss(1) [OF bl] by simp_all
  show "onBallTick elapsed s = lostBall b1 s1" if "balls s = [b]"
    using onBallTick_single [OF that, of elapsed] by (simp add: t)
qed

theorem collision_tick_frame_witness:
  "map ball_xform (balls (prepared\<lparr>balls := [paddle_ball]\<rparr>))
     = [\<lparr>xf_x = 240, xf_y = 500, xf_minx = -10, xf_miny = -10, xf_width = 20, xf_height = 20\<rparr>] \<and>
   map angle (balls (prepared\<lparr>balls := [paddle_ball]\<rparr>)) = [pi / 2] \<and>
   map ball_xform (balls (onBallTick 16 (prepared\<lparr>balls := [paddle_ball]\<rparr>)))
     = [\<lparr>xf_x = 240, xf_y = 500, xf_minx = -10, xf_miny = -10, xf_width = 20, xf_height = 20\<rparr>] \<and>
   map angle (balls (onBallTick 16 (prepared\<lparr>balls := [paddle_ball]\<rparr>))) = [pi * 3 / 2] \<and>
   map ball_xform (balls (prepared\<lparr>balls := [ball0]\<rparr>))
     = [\<lparr>xf_x = 240, xf_y = 300, xf_minx = -10, xf_miny = -10, xf_width = 20, xf_height = 20\<rparr>] \<and>
   map ball_xform (balls (onBallTick 16 (prepared\<lparr>balls := [ball0]\<rparr>)))
     = [\<lparr>xf_x = 240, xf_y = 303.84, xf_minx = -10, xf_miny = -10, xf_width = 20, xf_height = 20\<rparr>] \<and>
   map angle (balls (onBallTick 16 (prepared\<lparr>balls := [ball0]\<rparr>))) = [pi / 2] \<and>
   onBallTick 16 (prepared\<lparr>balls := [low_ball]\<rparr>)
     = lostBall low_ball (prepared\<lparr>balls := [low_ball]\<rparr>)"
proof -
  let ?p = "prepared\<lparr>balls := [paddle_ball]\<rparr>"
  let ?q = "prepared\<lparr>balls := [ball0]\<rparr>"
  let ?r = "prepared\<lparr>balls := [low_ball]\<rparr>"
  have single: "balls ?p = [paddle_ball] \<and> ([] = ([]::bounds list) \<or> bricks ?p \<noteq> [])"
      "balls ?q = [ball0] \<and> ([] = ([]::bounds list) \<or> bricks ?q \<noteq> [])"
      "balls ?r = [low_ball]"
    by (simp_all add: prepared_def)
  have before: "map ball_xform (balls ?p)
     = [\<lparr>xf_x = 240, xf_y = 500, xf_minx = -10, xf_miny = -10, xf_width = 20, xf_height = 20\<rparr>]"
    "map angle (balls ?p) = [pi / 2]"
    "map ball_xform (balls ?q)
     = [\<lparr>xf_x = 240, xf_y = 300, xf_minx = -10, xf_miny = -10, xf_width = 20, xf_height = 20\<rparr>]"
    by (simp_all add: prepared_def paddle_ball_def ball0_def)
  from collision_tick_frame [of 16 paddle_ball ?p
      CPaddle "- (pi / 2)" "[]" "paddle_ball\<lparr>colliding := True\<rparr>" ?p 0,
      THEN conjunct1, THEN mp, OF checks_paddle_ball]
  obtain b' where a0: "ball_xform b' = ball_xform paddle_ball" "angle b' = sanitize (- (pi / 2))"
      "balls ?p = [paddle_ball] \<and> ([] = ([]::bounds list) \<or> bricks ?p \<noteq> []) \<longrightarrow>
         balls (onBallTick 16 ?p) = [b']"
    by auto
  have a: "map ball_xform (balls (onBallTick 16 ?p))
     = [\<lparr>xf_x = 240, xf_y = 500, xf_minx = -10, xf_miny = -10, xf_width = 20, xf_height = 20\<rparr>]"
    "map angle (balls (onBallTick 16 ?p)) = [pi * 3 / 2]"
    using a0(3) [THEN mp, OF single(1)] a0(1,2)
    by (simp_all add: sanitize_neg_half_pi paddle_ball_def)
  from collision_tick_frame [of 16 ball0 ?q NoCollision "pi / 2" "[]" ball0 ?q 0,
      THEN conjunct1, THEN mp, OF checks_ball0]
  obtain b'' where b0: "ball_xform b'' = (ball_xform ball0)
                 \<lparr>xf_x := xf_x (ball_xform ball0) + cos (angle ball0) * speed ball0 * 16,
                  xf_y := xf_y (ball_xform ball0) + sin (angle ball0) * speed ball0 * 16\<rparr>"
      "angle b'' = angle ball0"
      "balls ?q = [ball0] \<and> ([] = ([]::bounds list) \<or> bricks ?q \<noteq> []) \<longrightarrow>
         balls (onBallTick 16 ?q) = [b'']"
    by auto
  have b: "map ball_xform (balls (onBallTick 16 ?q))
     = [\<lparr>xf_x = 240, xf_y = 303.84, xf_minx = -10, xf_miny = -10, xf_width = 20, xf_height = 20\<rparr>]"
    "map angle (balls (onBallTick 16 ?q)) = [pi / 2]"
    using b0(3) [THEN mp, OF single(2)] b0(1,2)
    by (simp_all add: ball0_def)
  from collision_tick_frame [of 16 low_ball ?r _ _ _ low_ball ?r,
      THEN conjunct2, THEN mp, OF checks_low_ball]
  have c: "onBallTick 16 ?r = lostBall low_ball ?r"
    using single(3) by simp
  from before a b c show ?thesis by simp
qed

text \<open>
  C3. For a ball of a game (spawned with an angle between 0.35 pi and 0.65 pi and written
  by onBallTick only), a pass that detected a collision stores an angle that is the
  candidate normalised into the range from 0 (included) to 2 pi (excluded), a whole number
  of turns away from the candidate, and then snapped out of the bands within pi / 18 of 0,
  pi and 2 pi to the nearest boundary of the band. The stored angle therefore lies between
  pi / 18 and pi - pi / 18 or between pi + pi / 18 and 2 pi - pi / 18.
\<close>

theorem angle_sanitized:
  "tracked b \<and> ball_checks elapsed b s = Checked c w f b1 s1 \<and> c \<noteq> NoCollision \<longrightarrow>
     (\<exists>b'. ball_tick elapsed b s = Done b' (store_ball b' s1) \<and>
        0 \<le> js_rem (w + pi * 2) (pi * 2) \<and> js_rem (w + pi * 2) (pi * 2) < pi * 2 \<and>
        (\<exists>k::int. js_rem (w + pi * 2) (pi * 2) = w + pi * 2 * of_int k) \<and>
        angle b' = snap (js_rem (w + pi * 2) (pi * 2)) \<and>
        ((pi / 18 \<le> angle b' \<and> angle b' \<le> pi - pi / 18) \<or>
         (pi + pi / 18 \<le> angle b' \<and> angle b' \<le> pi * 2 - pi / 18)) \<and>
        0 \<le> angle b' \<and> angle b' < pi * 2)"
proof (intro impI, elim conjE)
  assume tr: "tracked b" and ch: "ball_checks elapsed b s = Checked c w f b1 s1"
    and c: "c \<noteq> NoCollision"
  have p: "0 < pi" by (rule pi_gt_zero)
  let ?b' = "b1\<lparr>angle := sanitize w\<rparr>"
  have t: "ball_tick elapsed b s = Done ?b' (store_ball ?b' s1)"
    using c by (simp add: ball_tick_Checked [OF ch] Let_def)
  have w: "- (pi * 2) \<le> w"
    using candidate_range [OF _ _ ch] tracked_angle [OF tr] p by simp
  note sn = sanitize_snap [OF w]
  have e: "angle ?b' = snap (js_rem (w + pi * 2) (pi * 2))" using sn(3) by simp
  have r: "(pi / 18 \<le> angle ?b' \<and> angle ?b' \<le> pi - pi / 18) \<or>
         (pi + pi / 18 \<le> angle ?b' \<and> angle ?b' \<le> pi * 2 - pi / 18)"
    unfolding e by (rule snap_range [OF sn(1,2)])
  have r2: "0 \<le> angle ?b' \<and> angle ?b' < pi * 2" using r p by linarith
  have "js_rem (w + pi * 2) (pi * 2) = w + pi * 2 * of_int (1 - \<lfloor>(w + pi * 2) / (pi * 2)\<rfloor>)"
    using js_rem_nonneg(3) [of "w + pi * 2" "pi * 2"] w p by (simp add: algebra_simps)
  then have k: "\<exists>k::int. js_rem (w + pi * 2) (pi * 2) = w + pi * 2 * of_int k" by (rule exI)
  show "\<exists>b'. ball_tick elapsed b s = Done b' (store_ball b' s1) \<and>
        0 \<le> js_rem (w + pi * 2) (pi * 2) \<and> js_rem (w + pi * 2) (pi * 2) < pi * 2 \<and>
        (\<exists>k::int. js_rem (w + pi * 2) (pi * 2) = w + pi * 2 * of_int k) \<and>
        angle b' = snap (js_rem (w + pi * 2) (pi * 2)) \<and>
        ((pi / 18 \<le> angle b' \<and> angle b' \<le> pi - pi / 18) \<or>
         (pi + pi / 18 \<le> angle b' \<and> angle b' \<le> pi * 2 - pi / 18)) \<and>
        0 \<le> angle b' \<and> angle b' < pi * 2"
    using t sn(1,2) k e r r2 by (intro exI [of _ ?b']) blast
qed

theorem angle_sanitized_witness:
  "angle (pass_ball (ball_tick 16 ball0 raised)) = pi * 3 / 2 \<and>
   pi + pi / 18 \<le> pi * 3 / 2 \<and> pi * 3 / 2 \<le> pi * 2 - pi / 18"
proof -
  have h: "tracked ball0 \<and>
      ball_checks 16 ball0 raised = Checked CPaddle (- (pi / 2)) [] (ball0\<lparr>colliding := True\<rparr>) raised \<and>
      CPaddle \<noteq> NoCollision"
    using tracked_ball0 checks_ball0_raised by simp
  have n: "js_rem (- (pi / 2) + pi * 2) (pi * 2) = pi * 3 / 2"
    by (simp add: js_rem_def)
  have s: "snap (pi * 3 / 2) = pi * 3 / 2"
    using pi_gt_zero by (simp add: snap_def)
  from angle_sanitized [of ball0 16 raised CPaddle "- (pi / 2)" "[]" "ball0\<lparr>colliding := True\<rparr>"
      raised, THEN mp, OF h]
  have "angle (pass_ball (ball_tick 16 ball0 raised)) = pi * 3 / 2"
    unfolding n s by auto
  then show ?thesis using pi_gt_zero by simp
qed

subsection \<open>The order of the checks\<close>



subsection \<open>The loop over the balls\<close>



text \<open>
  The loop itself would not treat balls independently: the \<open>return\<close> after lostBall
  leaves onBallTick, not only the pass. On an array of two balls put together by hand
  (which, by the above, no game reaches), the tick that loses the first ball leaves the
  second one exactly as it was, while the same second ball is moved by the tick when it
  stands alone or before the lost ball.
\<close>

lemma return_ends_tick:
  "onBallTick 16 (prepared\<lparr>balls := [low_ball, ball0]\<rparr>)
     = prepared\<lparr>balls := [ball0], destroyed := [ball_oid low_ball]\<rparr> \<and>
   onBallTick 16 (prepared\<lparr>balls := [ball0, low_ball]\<rparr>)
     = prepared\<lparr>balls := [ball0\<lparr>ball_xform := (ball_xform ball0)\<lparr>xf_y := 303.84\<rparr>\<rparr>],
                destroyed := [ball_oid low_ball]\<rparr> \<and>
   onBallTick 16 (prepared\<lparr>balls := [ball0]\<rparr>)
     = prepared\<lparr>balls := [ball0\<lparr>ball_xform := (ball_xform ball0)\<lparr>xf_y := 303.84\<rparr>\<rparr>]\<rparr>"
proof -
  have t0: "ball_tick 16 ball0 (prepared\<lparr>balls := bs\<rparr>)
      = Done (ball0\<lparr>ball_xform := (ball_xform ball0)\<lparr>xf_y := 303.84\<rparr>\<rparr>)
          (store_ball (ball0\<lparr>ball_xform := (ball_xform ball0)\<lparr>xf_y := 303.84\<rparr>\<rparr>)
             (prepared\<lparr>balls := bs\<rparr>))" for bs
    by (simp add: ball_tick_def checks_ball0 Let_def ball0_geom) (simp add: ball0_def)
  have tl: "ball_tick 16 low_ball (prepared\<lparr>balls := bs\<rparr>)
      = Lost low_ball (lostBall low_ball (prepared\<lparr>balls := bs\<rparr>))" for bs
    by (simp add: ball_tick_def checks_low_ball)
  have oids: "ball_oid ball0 = 0" "ball_oid low_ball = 8"
    by (simp_all add: ball0_def low_ball_def)
  have l1: "lostBall low_ball (prepared\<lparr>balls := [low_ball, ball0]\<rparr>)
      = prepared\<lparr>balls := [ball0], destroyed := [ball_oid low_ball]\<rparr>"
    by (simp add: lostBall_def Let_def oids splice1_def prepared_def)
  have l2: "lostBall low_ball (prepared\<lparr>balls := [b, low_ball]\<rparr>)
      = prepared\<lparr>balls := [b], destroyed := [ball_oid low_ball]\<rparr>" if "ball_oid b = 0" for b
    using that by (simp add: lostBall_def Let_def oids splice1_def prepared_def)
  show ?thesis
    by (simp add: onBallTick_def t0 tl l1 l2 store_ball_def oids)
qed

subsection \<open>lostBall\<close>

text \<open>
  C5. A pass whose bottom check fires calls lostBall for that ball and leaves onBallTick.
  When the ball that is lost is in \<open>this.balls\<close> (at index \<open>i\<close>; the objects of the array
  are distinct), lostBall removes it from the array and calls its \<open>destroy()\<close> once. If
  other balls remain, nothing else changes. If none remains, a life is taken: when lives
  remain, the countdown is started again (startTimer), and when none remains, \<open>gameover\<close>
  is set and \<open>StateMgr.start('gameover', {score})\<close> is called with the current score.
\<close>

theorem lostBall_protocol:
  "(\<not> at_top elapsed b s \<and> at_bottom elapsed b s \<longrightarrow>
      (\<exists>ws. ball_tick elapsed b s
          = Lost (b\<lparr>colliding := fst (snd (paddle_check elapsed b (paddle s)))\<rparr>)
              (lostBall b (s\<lparr>walls := ws\<rparr>)))) \<and>
   (i < length (balls s) \<and> ball_oid (balls s ! i) = ball_oid b \<and> distinct (map ball_oid (balls s)) \<longrightarrow>
     balls (lostBall b s) = splice1 i (balls s) \<and>
     destroyed (lostBall b s) = destroyed s @ [ball_oid b] \<and>
     (splice1 i (balls s) \<noteq> [] \<longrightarrow>
        lostBall b s = s\<lparr>balls := splice1 i (balls s), destroyed := destroyed s @ [ball_oid b]\<rparr>) \<and>
     (splice1 i (balls s) = [] \<and> lives s - 1 > 0 \<longrightarrow>
        lostBall b s = s\<lparr>balls := [], destroyed := destroyed s @ [ball_oid b],
                          lives := lives s - 1, timers := timers s @ [Countdown 3 1000]\<rparr>) \<and>
     (splice1 i (balls s) = [] \<and> lives s - 1 \<le> 0 \<longrightarrow>
        lostBall b s = s\<lparr>balls := [], destroyed := destroyed s @ [ball_oid b],
                          lives := lives s - 1, gameover := True,
                          started := started s @ [(''gameover'', score s)]\<rparr>))"
proof (intro conjI)
  show "\<not> at_top elapsed b s \<and> at_bottom elapsed b s \<longrightarrow>
      (\<exists>ws. ball_tick elapsed b s
          = Lost (b\<lparr>colliding := fst (snd (paddle_check elapsed b (paddle s)))\<rparr>)
              (lostBall b (s\<lparr>walls := ws\<rparr>)))"
    using ball_tick_bottom [of elapsed b s] by blast
next
  show "i < length (balls s) \<and> ball_oid (balls s ! i) = ball_oid b \<and> distinct (map ball_oid (balls s)) \<longrightarrow>
     balls (lostBall b s) = splice1 i (balls s) \<and>
     destroyed (lostBall b s) = destroyed s @ [ball_oid b] \<and>
     (splice1 i (balls s) \<noteq> [] \<longrightarrow>
        lostBall b s = s\<lparr>balls := splice1 i (balls s), destroyed := destroyed s @ [ball_oid b]\<rparr>) \<and>
     (splice1 i (balls s) = [] \<and> lives s - 1 > 0 \<longrightarrow>
        lostBall b s = s\<lparr>balls := [], destroyed := destroyed s @ [ball_oid b],
                          lives := lives s - 1, timers := timers s @ [Countdown 3 1000]\<rparr>) \<and>
     (splice1 i (balls s) = [] \<and> lives s - 1 \<le> 0 \<longrightarrow>
        lostBall b s = s\<lparr>balls := [], destroyed := destroyed s @ [ball_oid b],
                          lives := lives s - 1, gameover := True,
                          started := started s @ [(''gameover'', score s)]\<rparr>)"
  proof (intro impI, elim conjE)
    assume i: "i < length (balls s)" and oid: "ball_oid (balls s ! i) = ball_oid b"
      and d: "distinct (map ball_oid (balls s))"
    have idx: "indexOf (ball_oid b) (map ball_oid (balls s)) = Some i"
      using indexOf_oid [OF d i] oid by simp
    show "balls (lostBall b s) = splice1 i (balls s) \<and>
     destroyed (lostBall b s) = destroyed s @ [ball_oid b] \<and>
     (splice1 i (balls s) \<noteq> [] \<longrightarrow>
        lostBall b s = s\<lparr>balls := splice1 i (balls s), destroyed := destroyed s @ [ball_oid b]\<rparr>) \<and>
     (splice1 i (balls s) = [] \<and> lives s - 1 > 0 \<longrightarrow>
        lostBall b s = s\<lparr>balls := [], destroyed := destroyed s @ [ball_oid b],
                          lives := lives s - 1, timers := timers s @ [Countdown 3 1000]\<rparr>) \<and>
     (splice1 i (balls s) = [] \<and> lives s - 1 \<le> 0 \<longrightarrow>
        lostBall b s = s\<lparr>balls := [], destroyed := destroyed s @ [ball_oid b],
                          lives := lives s - 1, gameover := True,
                          started := started s @ [(''gameover'', score s)]\<rparr>)"
      by (simp add: lostBall_def idx Let_def startTimer_def)
  qed
qed

theorem lostBall_protocol_witness:
  "pass_ball (ball_tick 16 low_ball (prepared\<lparr>balls := [low_ball], lives := 2, score := 700\<rparr>))
     = low_ball \<and>
   lostBall low_ball (prepared\<lparr>balls := [low_ball], lives := 2, score := 700\<rparr>)
     = prepared\<lparr>balls := [], lives := 1, score := 700, destroyed := [8],
                timers := [Countdown 3 1000]\<rparr> \<and>
   lostBall low_ball (prepared\<lparr>balls := [low_ball], lives := 1, score := 700\<rparr>)
     = prepared\<lparr>balls := [], lives := 0, score := 700, destroyed := [8],
                gameover := True, started := [(''gameover'', 700)]\<rparr> \<and>
   lostBall low_ball (prepared\<lparr>balls := [ball0, low_ball], lives := 1, score := 700\<rparr>)
     = prepared\<lparr>balls := [ball0], lives := 1, score := 700, destroyed := [8]\<rparr>"
proof -
  let ?s2 = "prepared\<lparr>balls := [low_ball], lives := 2, score := 700\<rparr>"
  let ?s1 = "prepared\<lparr>balls := [low_ball], lives := 1, score := 700\<rparr>"
  let ?s3 = "prepared\<lparr>balls := [ball0, low_ball], lives := 1, score := 700\<rparr>"
  have edges: "topEdge ?s2 = 16" "bottomEdge ?s2 = 600"
    "paddle ?s2 = \<lparr>xf_x = 240, xf_y = 520, xf_minx = -30, xf_miny = -10,
                 xf_width = 60, xf_height = 20\<rparr>"
    by (simp_all add: prepared_def)
  have h0: "\<not> at_top 16 low_ball ?s2 \<and> at_bottom 16 low_ball ?s2"
    by (simp add: at_top_def at_bottom_def low_ball_geom edges)
  have miss: "fst (snd (paddle_check 16 low_ball (paddle ?s2))) = False"
    unfolding edges
    by (simp add: paddle_check_def low_ball_geom entity_bounds_def overlaps_def minx_def maxx_def
        miny_def maxy_def)
  have same: "low_ball\<lparr>colliding := False\<rparr> = low_ball" by (simp add: low_ball_def)
  have r0: "pass_ball (ball_tick 16 low_ball ?s2) = low_ball"
    using lostBall_protocol [of 16 low_ball ?s2 0, THEN conjunct1, THEN mp, OF h0]
    unfolding miss same by auto
  have oids: "ball_oid ball0 = 0" "ball_oid low_ball = 8"
    by (simp_all add: ball0_def low_ball_def)
  have h2: "0 < length (balls ?s2) \<and> ball_oid (balls ?s2 ! 0) = ball_oid low_ball \<and>
      distinct (map ball_oid (balls ?s2))" by simp
  have h1: "0 < length (balls ?s1) \<and> ball_oid (balls ?s1 ! 0) = ball_oid low_ball \<and>
      distinct (map ball_oid (balls ?s1))" by simp
  have h3: "1 < length (balls ?s3) \<and> ball_oid (balls ?s3 ! 1) = ball_oid low_ball \<and>
      distinct (map ball_oid (balls ?s3))" by (simp add: oids)
  have e: "splice1 0 [low_ball] = []" "splice1 (Suc 0) [ball0, low_ball] = [ball0]"
    by (simp_all add: splice1_def)
  have r2: "lostBall low_ball ?s2 = ?s2\<lparr>balls := [], destroyed := destroyed ?s2 @ [ball_oid low_ball],
      lives := lives ?s2 - 1, timers := timers ?s2 @ [Countdown 3 1000]\<rparr>"
    using lostBall_protocol [of 16 low_ball ?s2 0, THEN conjunct2, THEN mp, OF h2] by (simp add: e)
  have r1: "lostBall low_ball ?s1 = ?s1\<lparr>balls := [], destroyed := destroyed ?s1 @ [ball_oid low_ball],
      lives := lives ?s1 - 1, gameover := True, started := started ?s1 @ [(''gameover'', score ?s1)]\<rparr>"
    using lostBall_protocol [of 16 low_ball ?s1 0, THEN conjunct2, THEN mp, OF h1] by (simp add: e)
  have r3: "lostBall low_ball ?s3 = ?s3\<lparr>balls := [ball0], destroyed := destroyed ?s3 @ [ball_oid low_ball]\<rparr>"
    using lostBall_protocol [of 16 low_ball ?s3 1, THEN conjunct2, THEN mp, OF h3] by (simp add: e)
  show ?thesis
    unfolding r0 r1 r2 r3 by (simp add: prepared_def low_ball_def)
qed

subsection \<open>onBrickDestroyed and handleLevelComplete\<close>

text \<open>
  C6. There are three shipped levels. When the brick that is destroyed is the only one left
  (and the game is not over), onBrickDestroyed first adds its score to the total and then
  completes the level: every ball is destroyed and \<open>this.balls\<close> is empty. If the level is
  not the last one, no state is started; a timer of delay 0 is created, and its callback
  spawns the level of the next index without error and starts the countdown: when that
  timer fires, the level counter is the next index, the bricks are those of the grid of
  the next level (one brick for each non-zero cell, with the value of the cell as its hits,
  columns outermost), the countdown is pending, there is no ball, no state has been started
  and the score is the total. If the level is the last one,
  \<open>StateMgr.start('win', {score})\<close> is called with the total that includes the last brick,
  and no timer is created.
\<close>

theorem level_completion:
  "length shipped_levels = 3 \<and>
   (\<not> gameover s \<and> bricks s = [k] \<longrightarrow>
     score (onBrickDestroyed k s) = score s + brick_score k \<and>
     bricks (onBrickDestroyed k s) = [] \<and>
     balls (onBrickDestroyed k s) = [] \<and>
     destroyed (onBrickDestroyed k s) = destroyed s @ map ball_oid (balls s) \<and>
     (level s + 1 < length (levels s) \<longrightarrow>
        started (onBrickDestroyed k s) = started s \<and>
        timers (onBrickDestroyed k s) = timers s @ [NextLevel 0] \<and>
        (\<exists>s1. spawnLevel (level s + 1) (onBrickDestroyed k s) = Inr s1 \<and>
              level s1 = level s + 1 \<and>
              map hits (bricks s1)
                = concat (map (\<lambda>i. concat (map (cell_hits (levels s ! (level s + 1)) i)
                                              [0..<maxRows])) [0..<maxCols]) \<and>
              fire_next_level (onBrickDestroyed k s)
                = Inr (s1\<lparr>timers := timers s1 @ [Countdown 3 1000]\<rparr>)) \<and>
        (\<exists>s2. fire (length (timers s)) rx rangle (onBrickDestroyed k s) = Inr s2 \<and>
              level s2 = level s + 1 \<and>
              map hits (bricks s2)
                = concat (map (\<lambda>i. concat (map (cell_hits (levels s ! (level s + 1)) i)
                                              [0..<maxRows])) [0..<maxCols]) \<and>
              timers s2 = timers s @ [Countdown 3 1000] \<and>
              balls s2 = [] \<and> started s2 = started s \<and> score s2 = score s + brick_score k)) \<and>
     (length (levels s) \<le> level s + 1 \<longrightarrow>
        started (onBrickDestroyed k s) = started s @ [(''win'', score s + brick_score k)] \<and>
        timers (onBrickDestroyed k s) = timers s))"
proof (intro conjI impI)
  show "length shipped_levels = 3" by (simp add: shipped_levels_def)
next
  assume h: "\<not> gameover s \<and> bricks s = [k]"
  let ?s1 = "s\<lparr>bricks := [], score := score s + brick_score k\<rparr>"
  let ?d = "onBrickDestroyed k s"
  have step: "?d = handleLevelComplete ?s1"
    using h by (simp add: onBrickDestroyed_def incrementScore_def splice1_def Let_def)
  show "score ?d = score s + brick_score k"
    by (simp add: step handleLevelComplete_def Let_def)
  show "bricks ?d = []"
    by (simp add: step handleLevelComplete_def Let_def)
  show "balls ?d = []"
    by (simp add: step handleLevelComplete_def Let_def)
  show "destroyed ?d = destroyed s @ map ball_oid (balls s)"
    by (simp add: step handleLevelComplete_def Let_def)
  {
    assume more: "level s + 1 < length (levels s)"
    show "started ?d = started s"
      using more by (simp add: step handleLevelComplete_def Let_def)
    show tm: "timers ?d = timers s @ [NextLevel 0]"
      using more by (simp add: step handleLevelComplete_def Let_def)
    have lv: "level ?d = level s" "levels ?d = levels s" "bricks ?d = []"
      by (simp_all add: step handleLevelComplete_def Let_def)
    obtain s1 where s1: "spawnLevel (level s + 1) ?d = Inr s1"
        "level s1 = level s + 1"
        "map hits (bricks s1)
                = concat (map (\<lambda>i. concat (map (cell_hits (levels s ! (level s + 1)) i)
                                              [0..<maxRows])) [0..<maxCols])"
      using spawnLevel_hits [of "level s + 1" ?d] more lv by auto
    have "fire_next_level ?d = Inr (s1\<lparr>timers := timers s1 @ [Countdown 3 1000]\<rparr>)"
      using s1 lv by (simp add: fire_next_level_def startTimer_def)
    with s1 show "\<exists>s1. spawnLevel (level s + 1) ?d = Inr s1 \<and>
              level s1 = level s + 1 \<and>
              map hits (bricks s1)
                = concat (map (\<lambda>i. concat (map (cell_hits (levels s ! (level s + 1)) i)
                                              [0..<maxRows])) [0..<maxCols]) \<and>
              fire_next_level ?d
                = Inr (s1\<lparr>timers := timers s1 @ [Countdown 3 1000]\<rparr>)"
      by blast
    let ?e = "?d\<lparr>timers := timers s\<rparr>"
    have sel: "level ?e = level s" "levels ?e = levels s" "bricks ?e = []" "balls ?e = []"
        "timers ?e = timers s" "started ?e = started s" "score ?e = score s + brick_score k"
      using more by (simp_all add: step handleLevelComplete_def Let_def)
    obtain s2 where s2: "spawnLevel (level s + 1) ?e = Inr s2"
        "level s2 = level s + 1"
        "map hits (bricks s2)
                = concat (map (\<lambda>i. concat (map (cell_hits (levels s ! (level s + 1)) i)
                                              [0..<maxRows])) [0..<maxCols])"
      using spawnLevel_hits [of "level s + 1" ?e] more sel by auto
    have fr: "balls s2 = [] \<and> timers s2 = timers s"
      using spawnLevel_frame [OF s2(1)] sel by simp
    have fr2: "started s2 = started s \<and> score s2 = score s + brick_score k"
      using spawnLevel_frame2 [OF s2(1)] sel by simp
    have "fire (length (timers s)) rx rangle ?d = Inr (startTimer s2)"
      unfolding fire_NextLevel_last [OF tm] using s2(1) sel
      by (simp add: fire_next_level_def)
    then show "\<exists>s2. fire (length (timers s)) rx rangle ?d = Inr s2 \<and>
              level s2 = level s + 1 \<and>
              map hits (bricks s2)
                = concat (map (\<lambda>i. concat (map (cell_hits (levels s ! (level s + 1)) i)
                                              [0..<maxRows])) [0..<maxCols]) \<and>
              timers s2 = timers s @ [Countdown 3 1000] \<and>
              balls s2 = [] \<and> started s2 = started s \<and> score s2 = score s + brick_score k"
      using s2 fr fr2 by (intro exI [of _ "startTimer s2"]) (simp add: startTimer_def)
  }
  {
    assume last: "length (levels s) \<le> level s + 1"
    show "started ?d = started s @ [(''win'', score s + brick_score k)]"
      using last by (simp add: step handleLevelComplete_def Let_def)
    show "timers ?d = timers s"
      using last by (simp add: step handleLevelComplete_def Let_def)
  }
qed

theorem level_completion_witness:
  "started (onBrickDestroyed brick0 (prepared\<lparr>bricks := [brick0], score := 500, balls := [ball0]\<rparr>)) = [] \<and>
   timers (onBrickDestroyed brick0 (prepared\<lparr>bricks := [brick0], score := 500, balls := [ball0]\<rparr>))
     = [NextLevel 0] \<and>
   (case fire 0 240 (pi / 2)
           (onBrickDestroyed brick0 (prepared\<lparr>bricks := [brick0], score := 500, balls := [ball0]\<rparr>)) of
      Inl e \<Rightarrow> None
    | Inr s2 \<Rightarrow> Some (level s2, map hits (bricks s2), timers s2, balls s2, started s2, score s2))
     = Some (1, [1, 1, 2, 1, 1, 2, 1, 1, 3, 1, 1, 1, 1, 1, 3, 1, 1, 2, 1, 2, 1],
             [Countdown 3 1000], [], [], 600) \<and>
   started (onBrickDestroyed brick0 (prepared\<lparr>bricks := [brick0], score := 500, balls := [ball0], level := 2\<rparr>))
     = [(''win'', 600)] \<and>
   balls (onBrickDestroyed brick0 (prepared\<lparr>bricks := [brick0], score := 500, balls := [ball0], level := 2\<rparr>))
     = []"
proof -
  let ?s0 = "prepared\<lparr>bricks := [brick0], score := 500, balls := [ball0]\<rparr>"
  let ?s2 = "prepared\<lparr>bricks := [brick0], score := 500, balls := [ball0], level := 2\<rparr>"
  have h0: "\<not> gameover ?s0 \<and> bricks ?s0 = [brick0]" by (simp add: prepared_def)
  have h2: "\<not> gameover ?s2 \<and> bricks ?s2 = [brick0]" by (simp add: prepared_def)
  have l0: "level ?s0 + 1 < length (levels ?s0)"
    by (simp add: prepared_def shipped_levels_def)
  have l2: "length (levels ?s2) \<le> level ?s2 + 1"
    by (simp add: prepared_def shipped_levels_def)
  have sel: "started ?s0 = []" "timers ?s0 = []" "started ?s2 = []" "score ?s2 = 500"
      "brick_score brick0 = 100" "score ?s0 = 500"
    by (simp_all add: prepared_def brick0_def)
  have g: "levels ?s0 ! 1 = shipped_levels ! 1" by (simp add: prepared_def)
  have e: "concat (map (\<lambda>i. concat (map (cell_hits (shipped_levels ! 1) i) [0..<maxRows])) [0..<maxCols])
      = [1, 1, 2, 1, 1, 2, 1, 1, 3, 1, 1, 1, 1, 1, 3, 1, 1, 2, 1, 2, 1]"
    by code_simp
  note th0 = level_completion [of ?s0 brick0 240 "pi / 2", THEN conjunct2, THEN mp, OF h0]
  note next_level = th0 [THEN conjunct2, THEN conjunct2, THEN conjunct2, THEN conjunct2,
      THEN conjunct1, THEN mp, OF l0]
  from next_level have a: "started (onBrickDestroyed brick0 ?s0) = []"
      "timers (onBrickDestroyed brick0 ?s0) = [NextLevel 0]"
    unfolding sel by simp_all
  have lv: "level ?s0 + 1 = 1" "score ?s0 + 100 = 600" by (simp_all add: prepared_def)
  have ex: "\<exists>s2. fire 0 240 (pi / 2) (onBrickDestroyed brick0 ?s0) = Inr s2 \<and>
      level s2 = 1 \<and>
      map hits (bricks s2) = [1, 1, 2, 1, 1, 2, 1, 1, 3, 1, 1, 1, 1, 1, 3, 1, 1, 2, 1, 2, 1] \<and>
      timers s2 = [] @ [Countdown 3 1000] \<and> balls s2 = [] \<and> started s2 = [] \<and> score s2 = 600"
    using next_level [THEN conjunct2, THEN conjunct2, THEN conjunct2]
    unfolding lv sel(1,2,5) g e list.size(3) .
  then obtain s2 where s2: "fire 0 240 (pi / 2) (onBrickDestroyed brick0 ?s0) = Inr s2"
      "level s2 = 1"
      "map hits (bricks s2) = [1, 1, 2, 1, 1, 2, 1, 1, 3, 1, 1, 1, 1, 1, 3, 1, 1, 2, 1, 2, 1]"
      "timers s2 = [Countdown 3 1000]" "balls s2 = []" "started s2 = []" "score s2 = 600"
    by auto
  have b: "(case fire 0 240 (pi / 2) (onBrickDestroyed brick0 ?s0) of
      Inl e \<Rightarrow> None
    | Inr s2 \<Rightarrow> Some (level s2, map hits (bricks s2), timers s2, balls s2, started s2, score s2))
     = Some (1, [1, 1, 2, 1, 1, 2, 1, 1, 3, 1, 1, 1, 1, 1, 3, 1, 1, 2, 1, 2, 1],
             [Countdown 3 1000], [], [], 600)"
    by (simp add: s2)
  from level_completion [of ?s2 brick0 240 "pi / 2", THEN conjunct2, THEN mp, OF h2] l2
  have c: "started (onBrickDestroyed brick0 ?s2) = [(''win'', 600)]"
      "balls (onBrickDestroyed brick0 ?s2) = []"
    unfolding sel by auto
  from a b c show ?thesis by simp
qed

subsection \<open>Brick.hit\<close>

lemma bricks_onBrickDestroyed:
  assumes "\<not> gameover s" and "indexOf (brick_oid k) (map brick_oid (bricks s)) = Some i"
  shows "bricks (onBrickDestroyed k s) = splice1 i (bricks s)"
    and "score (onBrickDestroyed k s) = score s + brick_score k"
  using assms
  by (simp_all add: onBrickDestroyed_def incrementScore_def handleLevelComplete_def Let_def)

lemma hit_brick_cases:
  assumes i: "i < length (bricks s)" and d: "distinct (map brick_oid (bricks s))"
    and g: "\<not> gameover s"
  shows "hits (bricks s ! i) - 1 \<le> 0 \<Longrightarrow>
           bricks (hit_brick i s) = splice1 i (bricks s) \<and>
           score (hit_brick i s) = score s + brick_score (bricks s ! i)"
    and "\<not> hits (bricks s ! i) - 1 \<le> 0 \<Longrightarrow>
           bricks (hit_brick i s) = (bricks s)[i := (bricks s ! i)\<lparr>hits := hits (bricks s ! i) - 1\<rparr>] \<and>
           score (hit_brick i s) = score s"
proof -
  let ?k = "(bricks s ! i)\<lparr>hits := hits (bricks s ! i) - 1\<rparr>"
  let ?s1 = "s\<lparr>bricks := (bricks s)[i := ?k]\<rparr>"
  have same: "map brick_oid (bricks ?s1) = map brick_oid (bricks s)"
    using i by (simp add: map_update list_update_same_conv)
  have "indexOf (brick_oid ((bricks s) ! i)) (map brick_oid (bricks s)) = Some i"
    using indexOf_oid [OF d i] .
  then have idx: "indexOf (brick_oid ?k) (map brick_oid (bricks ?s1)) = Some i"
    unfolding same by simp
  have g1: "\<not> gameover ?s1" using g by simp
  show "hits (bricks s ! i) - 1 \<le> 0 \<Longrightarrow>
           bricks (hit_brick i s) = splice1 i (bricks s) \<and>
           score (hit_brick i s) = score s + brick_score (bricks s ! i)"
    using bricks_onBrickDestroyed [OF g1 idx]
    by (simp add: hit_brick_def Brick_hit_def Let_def splice1_update)
  show "\<not> hits (bricks s ! i) - 1 \<le> 0 \<Longrightarrow>
           bricks (hit_brick i s) = (bricks s)[i := ?k] \<and> score (hit_brick i s) = score s"
    by (simp add: hit_brick_def Brick_hit_def Let_def)
qed

lemma spawnBrick_bricks:
  "butlast (bricks (spawnBrick col row h s)) = bricks s"
  "bricks (spawnBrick col row h s) \<noteq> []"
  "brick_oid (last (bricks (spawnBrick col row h s))) = next_oid s"
  "hits (last (bricks (spawnBrick col row h s))) = h"
  "h \<noteq> 0 \<Longrightarrow> brick_score (last (bricks (spawnBrick col row h s))) = h * 100"
  "gameover (spawnBrick col row h s) = gameover s"
  "score (spawnBrick col row h s) = score s"
  by (simp_all add: spawnBrick_def Let_def Brick_cpre_def)


text \<open>
  C7. Brick.hit takes one from \<open>hits\<close> and leaves the score of the brick as it is; it
  destroys the brick exactly when the new \<open>hits\<close> is 0 (or less). A brick that spawnBrick
  creates for \<open>h\<close> hits has \<open>hits = h\<close> and \<open>score = h * 100\<close>. In the play state (game not
  over, the bricks distinct objects), a hit that destroys the brick removes it from
  \<open>this.bricks\<close> and adds its score to the total, and any other hit leaves it in the array
  with one hit less and the total unchanged. So a brick spawned with 2 hits is still there
  with \<open>hits = 1\<close> after the first hit, and the second hit removes it and adds 200.
\<close>

theorem Brick_hit_semantics:
  "fst (Brick_hit k) = k\<lparr>hits := hits k - 1\<rparr> \<and>
   (snd (Brick_hit k) \<longleftrightarrow> hits k - 1 \<le> 0) \<and>
   (h \<noteq> 0 \<longrightarrow>
      hits (last (bricks (spawnBrick col row h s))) = h \<and>
      brick_score (last (bricks (spawnBrick col row h s))) = h * 100) \<and>
   (i < length (bricks s) \<and> distinct (map brick_oid (bricks s)) \<and> \<not> gameover s \<longrightarrow>
      (if hits (bricks s ! i) - 1 \<le> 0
       then bricks (hit_brick i s) = splice1 i (bricks s) \<and>
            score (hit_brick i s) = score s + brick_score (bricks s ! i)
       else bricks (hit_brick i s) = (bricks s)[i := (bricks s ! i)\<lparr>hits := hits (bricks s ! i) - 1\<rparr>] \<and>
            score (hit_brick i s) = score s)) \<and>
   (distinct (map brick_oid (bricks s)) \<and> next_oid s \<notin> set (map brick_oid (bricks s)) \<and>
    \<not> gameover s \<longrightarrow>
      (let n = length (bricks s);
           s1 = spawnBrick col row 2 s;
           s2 = hit_brick n s1;
           s3 = hit_brick n s2
       in bricks s2 = bricks s @ [(last (bricks s1))\<lparr>hits := 1\<rparr>] \<and> score s2 = score s \<and>
          bricks s3 = bricks s \<and> score s3 = score s + 200))"
proof (intro conjI impI)
  show "fst (Brick_hit k) = k\<lparr>hits := hits k - 1\<rparr>"
    by (simp add: Brick_hit_def Let_def)
  show "snd (Brick_hit k) \<longleftrightarrow> hits k - 1 \<le> 0"
    by (simp add: Brick_hit_def Let_def)
next
  assume "h \<noteq> 0"
  then show "hits (last (bricks (spawnBrick col row h s))) = h"
    and "brick_score (last (bricks (spawnBrick col row h s))) = h * 100"
    by (simp_all add: spawnBrick_bricks(4,5))
next
  assume "i < length (bricks s) \<and> distinct (map brick_oid (bricks s)) \<and> \<not> gameover s"
  then have i: "i < length (bricks s)" and d: "distinct (map brick_oid (bricks s))"
    and g: "\<not> gameover s" by simp_all
  show "if hits (bricks s ! i) - 1 \<le> 0
       then bricks (hit_brick i s) = splice1 i (bricks s) \<and>
            score (hit_brick i s) = score s + brick_score (bricks s ! i)
       else bricks (hit_brick i s) = (bricks s)[i := (bricks s ! i)\<lparr>hits := hits (bricks s ! i) - 1\<rparr>] \<and>
            score (hit_brick i s) = score s"
  proof (cases "hits (bricks s ! i) - 1 \<le> 0")
    case True
    from hit_brick_cases(1) [OF i d g True] True show ?thesis by presburger
  next
    case False
    from hit_brick_cases(2) [OF i d g False] False show ?thesis by presburger
  qed
next
  assume h: "distinct (map brick_oid (bricks s)) \<and> next_oid s \<notin> set (map brick_oid (bricks s)) \<and>
    \<not> gameover s"
  define n where "n = length (bricks s)"
  define s1 where "s1 = spawnBrick col row 2 s"
  define k0 where "k0 = last (bricks s1)"
  define s2 where "s2 = hit_brick n s1"
  define s3 where "s3 = hit_brick n s2"
  have b1: "bricks s1 = bricks s @ [k0]"
    using append_butlast_last_id [of "bricks s1"] spawnBrick_bricks(1,2) [where col=col and row=row and h=2 and s=s]
    by (simp add: s1_def k0_def)
  have k0: "brick_oid k0 = next_oid s" "hits k0 = 2" "brick_score k0 = 200"
    and g1: "\<not> gameover s1" and sc1: "score s1 = score s"
    using h spawnBrick_bricks(3-7) [where col=col and row=row and h=2 and s=s] by (simp_all add: s1_def k0_def)
  have n1: "n < length (bricks s1)" "bricks s1 ! n = k0" by (simp_all add: b1 n_def)
  have d1: "distinct (map brick_oid (bricks s1))" using h by (simp add: b1 k0)
  have r2: "bricks s2 = bricks s @ [k0\<lparr>hits := 1\<rparr>]" "score s2 = score s"
    using hit_brick_cases(2) [OF n1(1) d1 g1] n1(2) k0 sc1
    by (simp_all add: s2_def b1 n_def)
  have g2: "\<not> gameover s2"
    using g1 n1 k0 by (simp add: s2_def hit_brick_def Brick_hit_def Let_def)
  have n2: "n < length (bricks s2)" "bricks s2 ! n = k0\<lparr>hits := 1\<rparr>" by (simp_all add: r2 n_def)
  have d2: "distinct (map brick_oid (bricks s2))" using h by (simp add: r2 k0)
  have r3: "bricks s3 = bricks s" "score s3 = score s + 200"
    using hit_brick_cases(1) [OF n2(1) d2 g2] n2(2) k0 r2
    by (simp_all add: s3_def n_def splice1_def)
  show "let n = length (bricks s);
           s1 = spawnBrick col row 2 s;
           s2 = hit_brick n s1;
           s3 = hit_brick n s2
       in bricks s2 = bricks s @ [(last (bricks s1))\<lparr>hits := 1\<rparr>] \<and> score s2 = score s \<and>
          bricks s3 = bricks s \<and> score s3 = score s + 200"
    using r2 r3 unfolding Let_def n_def s1_def s2_def s3_def k0_def by simp
qed

theorem Brick_hit_semantics_witness:
  "bricks (hit_brick 0 one_brick) = [] \<and> score (hit_brick 0 one_brick) = 100 \<and>
   hits (last (bricks (spawnBrick 3 5 2 one_brick))) = 2 \<and>
   brick_score (last (bricks (spawnBrick 3 5 2 one_brick))) = 200 \<and>
   bricks (hit_brick 1 (spawnBrick 3 5 2 one_brick))
     = [brick0, (last (bricks (spawnBrick 3 5 2 one_brick)))\<lparr>hits := 1\<rparr>] \<and>
   score (hit_brick 1 (spawnBrick 3 5 2 one_brick)) = 0 \<and>
   bricks (hit_brick 1 (hit_brick 1 (spawnBrick 3 5 2 one_brick))) = [brick0] \<and>
   score (hit_brick 1 (hit_brick 1 (spawnBrick 3 5 2 one_brick))) = 200"
proof -
  have sel: "bricks one_brick = [brick0]" "score one_brick = 0" "next_oid one_brick = 1"
      "\<not> gameover one_brick" "brick_oid brick0 = 0" "hits brick0 = 1" "brick_score brick0 = 100"
    by (simp_all add: one_brick_def prepared_def brick0_def)
  have h1: "(2::int) \<noteq> 0" by simp
  have h2: "0 < length (bricks one_brick) \<and> distinct (map brick_oid (bricks one_brick)) \<and>
      \<not> gameover one_brick" by (simp add: sel)
  have h3: "distinct (map brick_oid (bricks one_brick)) \<and>
      next_oid one_brick \<notin> set (map brick_oid (bricks one_brick)) \<and> \<not> gameover one_brick"
    by (simp add: sel)
  note th = Brick_hit_semantics [of brick0 2 3 5 one_brick 0]
  from th [THEN conjunct2, THEN conjunct2, THEN conjunct1, THEN mp, OF h1]
       th [THEN conjunct2, THEN conjunct2, THEN conjunct2, THEN conjunct1, THEN mp, OF h2]
       th [THEN conjunct2, THEN conjunct2, THEN conjunct2, THEN conjunct2, THEN mp, OF h3]
  show ?thesis
    by (simp add: sel Let_def splice1_def)
qed

subsection \<open>Wall.hit and its cooldown\<close>

lemma Wall_hit_idle:
  "wall_state w = Idle \<Longrightarrow> Wall_hit w = w\<lparr>wall_state := Hit, wall_timers := wall_timers w @ [hitTTL]\<rparr>"
  by (simp add: Wall_hit_def)

lemma Wall_hit_again: "wall_state w = Hit \<Longrightarrow> Wall_hit w = w"
  by (simp add: Wall_hit_def)

lemma Wall_tock_pending:
  "wall_timers w = [r] \<Longrightarrow> elapsed < r \<Longrightarrow> Wall_tock elapsed w = w\<lparr>wall_timers := [r - elapsed]\<rparr>"
  by (simp add: Wall_tock_def)

lemma Wall_tock_fires:
  "wall_timers w = [r] \<Longrightarrow> r \<le> elapsed \<Longrightarrow> Wall_tock elapsed w = w\<lparr>wall_state := Idle, wall_timers := []\<rparr>"
  by (simp add: Wall_tock_def)

lemma wall_run_cooling:
  "wall_state w = Hit \<Longrightarrow> wall_timers w = [r] \<Longrightarrow> \<forall>e \<in> set es. 0 \<le> event_time e \<Longrightarrow>
   simulated_time es < r \<Longrightarrow> wall_run es w = w\<lparr>wall_timers := [r - simulated_time es]\<rparr>"
proof (induction es arbitrary: w r)
  case Nil
  then show ?case by (simp add: wall_run_def simulated_time_def)
next
  case (Cons e es)
  have rest: "0 \<le> simulated_time es"
    using Cons.prems(3) by (auto simp: simulated_time_def intro!: sum_list_nonneg)
  show ?case
  proof (cases e)
    case BallHit
    then have "wall_run (e # es) w = wall_run es w"
      using Cons.prems(1) by (simp add: wall_run_def Wall_hit_again)
    moreover have "simulated_time (e # es) = simulated_time es"
      using BallHit by (simp add: simulated_time_def)
    ultimately show ?thesis
      using Cons.IH [of w r] Cons.prems by simp
  next
    case (Tock elapsed)
    have t: "simulated_time (e # es) = elapsed + simulated_time es"
      using Tock by (simp add: simulated_time_def)
    then have lt: "elapsed < r" using Cons.prems(4) rest by simp
    let ?w = "w\<lparr>wall_timers := [r - elapsed]\<rparr>"
    have step: "wall_run (e # es) w = wall_run es ?w"
      using Tock Wall_tock_pending [OF Cons.prems(2) lt] by (simp add: wall_run_def)
    have "wall_run es ?w = ?w\<lparr>wall_timers := [(r - elapsed) - simulated_time es]\<rparr>"
      using Cons.prems t by (intro Cons.IH) simp_all
    then show ?thesis using step t by (simp add: algebra_simps)
  qed
qed

lemma wall_run_snoc: "wall_run (es @ [e]) w = wall_step e (wall_run es w)"
  by (simp add: wall_run_def)

lemma wall_step_single_timer:
  assumes "(wall_state w = Idle \<and> wall_timers w = []) \<or>
           (wall_state w = Hit \<and> (\<exists>r. 0 < r \<and> wall_timers w = [r]))"
  shows "(wall_state (wall_step e w) = Idle \<and> wall_timers (wall_step e w) = []) \<or>
         (wall_state (wall_step e w) = Hit \<and> (\<exists>r. 0 < r \<and> wall_timers (wall_step e w) = [r]))"
proof (cases e)
  case BallHit
  with assms show ?thesis
    by (auto simp: Wall_hit_def hitTTL_def)
next
  case (Tock elapsed)
  with assms show ?thesis
    by (auto simp: Wall_tock_def)
qed

lemma wall_run_single_timer:
  "(wall_state w = Idle \<and> wall_timers w = []) \<or>
     (wall_state w = Hit \<and> (\<exists>r. 0 < r \<and> wall_timers w = [r])) \<Longrightarrow>
   (wall_state (wall_run es w) = Idle \<and> wall_timers (wall_run es w) = []) \<or>
     (wall_state (wall_run es w) = Hit \<and> (\<exists>r. 0 < r \<and> wall_timers (wall_run es w) = [r]))"
proof (induction es arbitrary: w)
  case Nil
  then show ?case by (simp add: wall_run_def)
next
  case (Cons e es)
  have "wall_run (e # es) w = wall_run es (wall_step e w)" by (simp add: wall_run_def)
  then show ?case
    using Cons.IH [OF wall_step_single_timer [OF Cons.prems, of e]] by simp
qed


text \<open>
  C8. A hit on an idle wall (one with no timer pending) puts it into the state \<open>Hit\<close> and
  creates exactly one timer, of 300 ms. A hit on a wall that is in the state \<open>Hit\<close> changes
  nothing: no state change, no further timer. Therefore, whatever hits and clock ticks
  follow, the wall stays in \<open>Hit\<close> with its single timer as long as less than 300 ms of
  simulated time have passed since the hit, and the tick that brings the simulated time to
  300 ms or more puts it back to \<open>Idle\<close> with no timer left. At every moment of its life a
  wall has no timer when it is idle and exactly one when it is hit.
\<close>

theorem Wall_hit_cooldown:
  "wall_state w = Idle \<and> wall_timers w = [] \<and> (\<forall>e \<in> set es. 0 \<le> event_time e) \<longrightarrow>
     Wall_hit w = w\<lparr>wall_state := Hit, wall_timers := [300]\<rparr> \<and>
     (wall_state w' = Hit \<longrightarrow> Wall_hit w' = w') \<and>
     (simulated_time es < 300 \<longrightarrow>
        wall_run es (Wall_hit w) = w\<lparr>wall_state := Hit, wall_timers := [300 - simulated_time es]\<rparr>) \<and>
     (simulated_time es < 300 \<and> 300 \<le> simulated_time es + elapsed \<longrightarrow>
        wall_run (es @ [Tock elapsed]) (Wall_hit w) = w) \<and>
     (if wall_state (wall_run es' w) = Idle then wall_timers (wall_run es' w) = []
      else length (wall_timers (wall_run es' w)) = 1)"
proof (intro impI, elim conjE)
  assume idle: "wall_state w = Idle" and none: "wall_timers w = []"
    and nonneg: "\<forall>e \<in> set es. 0 \<le> event_time e"
  let ?h = "w\<lparr>wall_state := Hit, wall_timers := [300]\<rparr>"
  have h: "Wall_hit w = ?h"
    using idle none by (simp add: Wall_hit_def hitTTL_def)
  have again: "wall_state w' = Hit \<longrightarrow> Wall_hit w' = w'"
    by (simp add: Wall_hit_again)
  have cooling: "wall_run es ?h = ?h\<lparr>wall_timers := [300 - simulated_time es]\<rparr>"
    if "simulated_time es < 300"
    using that nonneg by (intro wall_run_cooling) simp_all
  have reverts: "wall_run (es @ [Tock elapsed]) ?h = w"
    if "simulated_time es < 300" and "300 \<le> simulated_time es + elapsed"
  proof -
    have "Wall_tock elapsed (?h\<lparr>wall_timers := [300 - simulated_time es]\<rparr>)
        = ?h\<lparr>wall_timers := [300 - simulated_time es]\<rparr>\<lparr>wall_state := Idle, wall_timers := []\<rparr>"
    proof (intro Wall_tock_fires)
      show "wall_timers (?h\<lparr>wall_timers := [300 - simulated_time es]\<rparr>) = [300 - simulated_time es]"
        by simp
      show "300 - simulated_time es \<le> elapsed"
        using that(2) by linarith
    qed
    then show ?thesis
      using cooling [OF that(1)] idle none by (simp add: wall_run_snoc)
  qed
  have single: "if wall_state (wall_run es' w) = Idle then wall_timers (wall_run es' w) = []
      else length (wall_timers (wall_run es' w)) = 1"
    using wall_run_single_timer [of w es'] idle none
    by (cases "wall_state (wall_run es' w)") auto
  show "Wall_hit w = ?h \<and> (wall_state w' = Hit \<longrightarrow> Wall_hit w' = w') \<and>
     (simulated_time es < 300 \<longrightarrow>
        wall_run es (Wall_hit w) = w\<lparr>wall_state := Hit, wall_timers := [300 - simulated_time es]\<rparr>) \<and>
     (simulated_time es < 300 \<and> 300 \<le> simulated_time es + elapsed \<longrightarrow>
        wall_run (es @ [Tock elapsed]) (Wall_hit w) = w) \<and>
     (if wall_state (wall_run es' w) = Idle then wall_timers (wall_run es' w) = []
      else length (wall_timers (wall_run es' w)) = 1)"
    using h again cooling reverts single by simp
qed

theorem Wall_hit_cooldown_witness:
  "Wall_hit (Wall_hit wall0) = Wall_hit wall0 \<and>
   wall_run [Tock 100, BallHit, Tock 150, BallHit] (Wall_hit wall0)
     = wall0\<lparr>wall_state := Hit, wall_timers := [50]\<rparr> \<and>
   wall_run ([Tock 100, BallHit, Tock 150, BallHit] @ [Tock 50]) (Wall_hit wall0) = wall0 \<and>
   length (wall_timers (wall_run [BallHit, Tock 100, BallHit, BallHit] wall0)) = 1"
proof -
  let ?es = "[Tock 100, BallHit, Tock 150, BallHit]"
  have hyp: "wall_state wall0 = Idle \<and> wall_timers wall0 = [] \<and> (\<forall>e \<in> set ?es. 0 \<le> event_time e)"
    by (simp add: wall0_def)
  have t: "simulated_time ?es = 250"
    by (simp add: simulated_time_def)
  have st: "wall_state (Wall_hit wall0) = Hit"
    by (simp add: Wall_hit_def wall0_def)
  have st2: "wall_state (wall_run [BallHit, Tock 100, BallHit, BallHit] wall0) = Hit"
    by (simp add: wall_run_def Wall_hit_def Wall_tock_def hitTTL_def wall0_def)
  from Wall_hit_cooldown [of wall0 ?es "Wall_hit wall0" 50 "[BallHit, Tock 100, BallHit, BallHit]",
      THEN mp, OF hyp] show ?thesis
    unfolding t st st2 by auto
qed

subsection \<open>spawnLevel\<close>

text \<open>
  C9, as the code has it. spawnLevel does not validate the grid and reports no error for
  any grid of the level table: it visits the 9 columns and, in each, the 11 rows, and
  spawns a brick for exactly the cells \<open>col + row * 9\<close> that are inside the grid and hold
  a value other than 0, with that value as its hits. Cells that a short grid lacks count as
  empty, and cells past the 99th are never read. (The one error of spawnLevel is the
  TypeError for a level index outside the table.)
\<close>

theorem spawnLevel_unvalidated:
  "idx < length (levels s) \<longrightarrow>
     (\<exists>s'. spawnLevel idx s = Inr s' \<and>
           map hits (bricks s')
             = map hits (bricks s)
               @ concat (map (\<lambda>i. concat (map (cell_hits (levels s ! idx) i) [0..<maxRows]))
                           [0..<maxCols]))"
  by (simp add: spawnLevel_def Let_def hits_spawn_columns)

theorem spawnLevel_unvalidated_witness:
  "(case spawnLevel 1 prepared of Inl e \<Rightarrow> [] | Inr s' \<Rightarrow> map hits (bricks s'))
     = [1, 1, 2, 1, 1, 2, 1, 1, 3, 1, 1, 1, 1, 1, 3, 1, 1, 2, 1, 2, 1]"
proof -
  have h: "1 < length (levels prepared)" by (simp add: prepared_def shipped_levels_def)
  have g: "levels prepared ! 1 = shipped_levels ! 1" "bricks prepared = []"
    by (simp_all add: prepared_def)
  have e: "concat (map (\<lambda>i. concat (map (cell_hits (shipped_levels ! 1) i) [0..<maxRows])) [0..<maxCols])
      = [1, 1, 2, 1, 1, 2, 1, 1, 3, 1, 1, 1, 1, 1, 3, 1, 1, 2, 1, 2, 1]"
    by code_simp
  from spawnLevel_unvalidated [of 1 prepared, THEN mp, OF h] show ?thesis
    unfolding g e by auto
qed

text \<open>
  C9 as stated fails: the grid \<open>[1]\<close> has length 1, not 99, and spawnLevel returns normally
  with one brick spawned.
\<close>

theorem spawnLevel_partial_spawn:
  "length [1::int] \<noteq> maxRows * maxCols \<and>
   (case spawnLevel 0 (prepared\<lparr>levels := [[1]]\<rparr>) of
      Inl e \<Rightarrow> [] | Inr s' \<Rightarrow> map hits (bricks s')) = [1]"
proof -
  have a: "(case spawnLevel 0 (prepared\<lparr>levels := [g]\<rparr>) of Inl e \<Rightarrow> [] | Inr s' \<Rightarrow> map hits (bricks s'))
      = concat (map (\<lambda>i. concat (map (cell_hits g i) [0..<maxRows])) [0..<maxCols])" for g
    by (simp add: spawnLevel_def Let_def hits_spawn_columns prepared_def)
  have e1: "concat (map (\<lambda>i. concat (map (cell_hits [1] i) [0..<maxRows])) [0..<maxCols]) = [1]"
    by code_simp
  show ?thesis
    unfolding a e1 by (simp add: maxRows_def maxCols_def)
qed

end
